theory Spec2Isabelle
  imports Complex_Main
begin

section \<open>Data model\<close>

text \<open>
  The records follow \<^verbatim>\<open>models/regeneration-models.go\<close> and
  \<^verbatim>\<open>models/request-body.go\<close>. Go strings are byte sequences, modelled as
  \<^typ>\<open>string\<close>. A \<^verbatim>\<open>float64\<close> is modelled as an exact rational: the
  binary rounding of IEEE arithmetic, the infinities and NaN are outside the model.
\<close>

record Serving =
  ServingID :: string
  ServingDescription :: string
  MeasurementDescription :: string
  MetricServingAmount :: string
  MetricServingUnit :: string
  NumberOfUnits :: string
  Calories :: string
  Protein :: string
  Carbohydrate :: string
  Fat :: string
  Sugar :: string
  Fiber :: string
  SaturatedFat :: string
  MonounsaturatedFat :: string
  PolyunsaturatedFat :: string
  Cholesterol :: string
  Sodium :: string
  Potassium :: string
  Calcium :: string
  Iron :: string
  VitaminA :: string
  VitaminB :: string
  VitaminC :: string
  VitaminD :: string

record Food =
  FoodID :: string
  FoodName :: string
  FoodType :: string
  BrandName :: string
  Servings :: "Serving list"

record MacroTarget =
  mtCalories :: rat
  mtCarbs :: rat
  mtFats :: rat
  mtProteins :: rat

record FoodWithPortion =
  Name :: string
  PortionRatio :: int

datatype panic = IntegerDivideByZero

section \<open>Library functions of Go used by the code\<close>

subsection \<open>strings.ToLower, strings.Contains, strings.EqualFold\<close>

text \<open>
  Case mapping is modelled on ASCII letters; bytes outside \<^verbatim>\<open>A-Z\<close> are left as
  they are (Go also maps non-ASCII letters).
\<close>

definition toLowerByte :: "char \<Rightarrow> char" where
  "toLowerByte c =
     (let n = (of_char c :: int) in if 65 \<le> n \<and> n \<le> 90 then char_of (n + 32) else c)"

definition ToLower :: "string \<Rightarrow> string" where
  "ToLower s = map toLowerByte s"

definition HasPrefix :: "string \<Rightarrow> string \<Rightarrow> bool" where
  "HasPrefix s pre = (take (length pre) s = pre)"

fun Contains :: "string \<Rightarrow> string \<Rightarrow> bool" where
  "Contains [] sub = (sub = [])"
| "Contains (c # cs) sub = (HasPrefix (c # cs) sub \<or> Contains cs sub)"

definition EqualFold :: "string \<Rightarrow> string \<Rightarrow> bool" where
  "EqualFold s t = (ToLower s = ToLower t)"

subsection \<open>strconv.ParseFloat\<close>

text \<open>
  The model accepts the plain decimal spellings: an optional sign, digits with an optional
  point (at least one digit), and an optional exponent \<^verbatim>\<open>e\<close> or \<^verbatim>\<open>E\<close> with
  an optional sign and at least one digit. Every other string is a parse error, \<open>None\<close>.
  Go accepts in addition the words \<^verbatim>\<open>inf\<close>, \<^verbatim>\<open>infinity\<close> and
  \<^verbatim>\<open>nan\<close>, hexadecimal mantissas and underscores between digits; those
  spellings, and results beyond the range of a \<^verbatim>\<open>float64\<close>, are outside the model.
\<close>

definition isDigit :: "char \<Rightarrow> bool" where
  "isDigit c = (48 \<le> (of_char c :: int) \<and> (of_char c :: int) \<le> 57)"

fun digitsValue :: "int \<Rightarrow> string \<Rightarrow> int" where
  "digitsValue n [] = n"
| "digitsValue n (c # cs) = digitsValue (10 * n + (of_char c - 48)) cs"

definition readSign :: "string \<Rightarrow> bool \<times> string" where
  "readSign s =
     (case s of
        [] \<Rightarrow> (False, [])
      | c # cs \<Rightarrow> if c = CHR ''+'' then (False, cs)
                 else if c = CHR ''-'' then (True, cs)
                 else (False, s))"

definition pow10 :: "int \<Rightarrow> rat" where
  "pow10 e = (if 0 \<le> e then 10 ^ nat e else 1 / 10 ^ nat (- e))"

definition readExponent :: "string \<Rightarrow> int option" where
  "readExponent s =
     (case s of
        [] \<Rightarrow> Some 0
      | c # cs \<Rightarrow>
          if c = CHR ''e'' \<or> c = CHR ''E'' then
            (let (neg, ds) = readSign cs in
             if ds \<noteq> [] \<and> list_all isDigit ds
             then Some (if neg then - digitsValue 0 ds else digitsValue 0 ds)
             else None)
          else None)"

definition ParseFloat :: "string \<Rightarrow> rat option" where
  "ParseFloat s =
     (let (neg, s1) = readSign s;
          ip = takeWhile isDigit s1;
          s2 = dropWhile isDigit s1;
          (fp, s3) = (case s2 of
                        [] \<Rightarrow> ([], [])
                      | c # r \<Rightarrow> if c = CHR ''.''
                                 then (takeWhile isDigit r, dropWhile isDigit r)
                                 else ([], s2))
      in if ip = [] \<and> fp = [] then None
         else (case readExponent s3 of
                 None \<Rightarrow> None
               | Some e \<Rightarrow>
                   Some ((if neg then - 1 else 1)
                         * (of_int (digitsValue 0 (ip @ fp)) / 10 ^ length fp) * pow10 e)))"

subsection \<open>fmt.Sprintf with the verb %.3f\<close>

text \<open>
  Three decimals, the nearest value, a tie going to the even last digit; a negative
  argument keeps its sign also when it rounds to zero.
\<close>

definition roundHalfEven :: "rat \<Rightarrow> int" where
  "roundHalfEven q =
     (let f = \<lfloor>q\<rfloor>; r = q - of_int f in
      if r < 1 / 2 then f else if 1 / 2 < r then f + 1 else if even f then f else f + 1)"

function showInt :: "int \<Rightarrow> string" where
  "showInt n =
     (if n < 10 then [char_of (48 + n)] else showInt (n div 10) @ [char_of (48 + n mod 10)])"
  by pat_completeness auto
termination
  by (relation "measure nat") auto

declare showInt.simps [simp del]

definition pad3 :: "int \<Rightarrow> string" where
  "pad3 k = [char_of (48 + k div 100), char_of (48 + k div 10 mod 10), char_of (48 + k mod 10)]"

definition Sprintf3 :: "rat \<Rightarrow> string" where
  "Sprintf3 x =
     (let a = \<bar>roundHalfEven (x * 1000)\<bar> in
      (if x < 0 then ''-'' else []) @ showInt (a div 1000) @ ''.'' @ pad3 (a mod 1000))"

section \<open>Serving Selector\<close>

text \<open>\<^verbatim>\<open>filterGramServings\<close>: the loop collects the gram servings in order.\<close>

definition isGramServing :: "Serving \<Rightarrow> bool" where
  "isGramServing serving =
     (let descriptionLower = ToLower (MeasurementDescription serving) in
      descriptionLower = ''g'' \<or> descriptionLower = ''gram'' \<or> descriptionLower = ''grams'')"

fun gramLoop :: "Serving list \<Rightarrow> Serving list \<Rightarrow> Serving list" where
  "gramLoop gramServings [] = gramServings"
| "gramLoop gramServings (serving # rest) =
     (if isGramServing serving then gramLoop (gramServings @ [serving]) rest
      else gramLoop gramServings rest)"

definition filterGramServings :: "Serving list \<Rightarrow> Serving list" where
  "filterGramServings servings =
     (let gramServings = gramLoop [] servings in
      if length gramServings = 0 \<and> length servings > 0 then [hd servings]
      else gramServings)"

text \<open>
  \<^verbatim>\<open>ensureServingFields\<close>: each guarded assignment
  \<^verbatim>\<open>if s.F == "" { s.F = d }\<close> reads and writes the one field \<open>F\<close>.
\<close>

definition orDefault :: "string \<Rightarrow> string \<Rightarrow> string" where
  "orDefault v d = (if v = [] then d else v)"

definition fillDefaults :: "Serving \<Rightarrow> Serving" where
  "fillDefaults s =
     s\<lparr>ServingID := orDefault (ServingID s) ''default'',
       ServingDescription := orDefault (ServingDescription s) ''1 serving'',
       MeasurementDescription := orDefault (MeasurementDescription s) ''g'',
       MetricServingAmount := orDefault (MetricServingAmount s) ''1'',
       MetricServingUnit := orDefault (MetricServingUnit s) ''g'',
       NumberOfUnits := orDefault (NumberOfUnits s) ''1'',
       Calories := orDefault (Calories s) ''0'',
       Protein := orDefault (Protein s) ''0'',
       Carbohydrate := orDefault (Carbohydrate s) ''0'',
       Fat := orDefault (Fat s) ''0'',
       Sugar := orDefault (Sugar s) ''0'',
       Fiber := orDefault (Fiber s) ''0'',
       SaturatedFat := orDefault (SaturatedFat s) ''0'',
       MonounsaturatedFat := orDefault (MonounsaturatedFat s) ''0'',
       PolyunsaturatedFat := orDefault (PolyunsaturatedFat s) ''0'',
       Cholesterol := orDefault (Cholesterol s) ''0'',
       Sodium := orDefault (Sodium s) ''0'',
       Potassium := orDefault (Potassium s) ''0'',
       Calcium := orDefault (Calcium s) ''0'',
       Iron := orDefault (Iron s) ''0'',
       VitaminA := orDefault (VitaminA s) ''0'',
       VitaminB := orDefault (VitaminB s) ''0'',
       VitaminC := orDefault (VitaminC s) ''0'',
       VitaminD := orDefault (VitaminD s) ''0''\<rparr>"

definition ensureServingFields :: "Serving \<Rightarrow> Serving list \<Rightarrow> Serving" where
  "ensureServingFields selectedServing availableServings =
     (let selected =
            (if ServingID selectedServing = [] \<or> Calories selectedServing = [] then
               (case availableServings of [] \<Rightarrow> selectedServing | first # _ \<Rightarrow> first)
             else selectedServing)
      in fillDefaults selected)"

text \<open>
  The selection step of \<^verbatim>\<open>swapFoodItems\<close> and of
  \<^verbatim>\<open>processRegenerationResponse\<close>: the serving list of the food is replaced by
  the filtered one, and its first element, when there is one, by the repaired serving.
\<close>

definition selectServings :: "Serving list \<Rightarrow> Serving list" where
  "selectServings servings =
     (let filtered = filterGramServings servings in
      case filtered of
        [] \<Rightarrow> []
      | first # rest \<Rightarrow> ensureServingFields first filtered # rest)"

section \<open>Portion Scaler\<close>

definition parseAndMultiply :: "string \<Rightarrow> rat \<Rightarrow> rat" where
  "parseAndMultiply v multiplier =
     (case ParseFloat v of Some parsed \<Rightarrow> parsed * multiplier | None \<Rightarrow> 0)"

definition adjustNutritionalValue :: "Serving \<Rightarrow> string \<Rightarrow> rat \<Rightarrow> Serving" where
  "adjustNutritionalValue serving field newValue =
     (let valueStr = Sprintf3 newValue in
      if field = ''calories'' then serving\<lparr>Calories := valueStr\<rparr>
      else if field = ''protein'' then serving\<lparr>Protein := valueStr\<rparr>
      else if field = ''carbohydrate'' then serving\<lparr>Carbohydrate := valueStr\<rparr>
      else if field = ''fat'' then serving\<lparr>Fat := valueStr\<rparr>
      else if field = ''sugar'' then serving\<lparr>Sugar := valueStr\<rparr>
      else if field = ''fiber'' then serving\<lparr>Fiber := valueStr\<rparr>
      else if field = ''saturated_fat'' then serving\<lparr>SaturatedFat := valueStr\<rparr>
      else if field = ''monounsaturated_fat'' then serving\<lparr>MonounsaturatedFat := valueStr\<rparr>
      else if field = ''polyunsaturated_fat'' then serving\<lparr>PolyunsaturatedFat := valueStr\<rparr>
      else if field = ''cholesterol'' then serving\<lparr>Cholesterol := valueStr\<rparr>
      else if field = ''sodium'' then serving\<lparr>Sodium := valueStr\<rparr>
      else if field = ''potassium'' then serving\<lparr>Potassium := valueStr\<rparr>
      else if field = ''calcium'' then serving\<lparr>Calcium := valueStr\<rparr>
      else if field = ''iron'' then serving\<lparr>Iron := valueStr\<rparr>
      else if field = ''vitamin_a'' then serving\<lparr>VitaminA := valueStr\<rparr>
      else if field = ''vitamin_b'' then serving\<lparr>VitaminB := valueStr\<rparr>
      else if field = ''vitamin_c'' then serving\<lparr>VitaminC := valueStr\<rparr>
      else if field = ''vitamin_d'' then serving\<lparr>VitaminD := valueStr\<rparr>
      else serving)"

definition adjustServingForTargetCalories :: "Serving \<Rightarrow> rat \<Rightarrow> Serving" where
  "adjustServingForTargetCalories serving targetCalories =
     (case ParseFloat (Calories serving) of
        None \<Rightarrow> serving
      | Some currentCalories \<Rightarrow>
          if currentCalories = 0 then serving
          else
            (case ParseFloat (MetricServingAmount serving) of
               None \<Rightarrow> serving
             | Some currentAmount \<Rightarrow>
                 if currentAmount = 0 then serving
                 else
                  (let multiplier = targetCalories / currentCalories;
                       a0 = serving\<lparr>MetricServingAmount := Sprintf3 (currentAmount * multiplier)\<rparr>;
                   a1 = adjustNutritionalValue a0 ''calories'' (currentCalories * multiplier);
                   a2 = adjustNutritionalValue a1 ''protein'' (parseAndMultiply (Protein serving) multiplier);
                   a3 = adjustNutritionalValue a2 ''carbohydrate'' (parseAndMultiply (Carbohydrate serving) multiplier);
                   a4 = adjustNutritionalValue a3 ''fat'' (parseAndMultiply (Fat serving) multiplier);
                   a5 = adjustNutritionalValue a4 ''sugar'' (parseAndMultiply (Sugar serving) multiplier);
                   a6 = adjustNutritionalValue a5 ''fiber'' (parseAndMultiply (Fiber serving) multiplier);
                   a7 = adjustNutritionalValue a6 ''saturated_fat'' (parseAndMultiply (SaturatedFat serving) multiplier);
                   a8 = adjustNutritionalValue a7 ''monounsaturated_fat'' (parseAndMultiply (MonounsaturatedFat serving) multiplier);
                   a9 = adjustNutritionalValue a8 ''polyunsaturated_fat'' (parseAndMultiply (PolyunsaturatedFat serving) multiplier);
                   a10 = adjustNutritionalValue a9 ''cholesterol'' (parseAndMultiply (Cholesterol serving) multiplier);
                   a11 = adjustNutritionalValue a10 ''sodium'' (parseAndMultiply (Sodium serving) multiplier);
                   a12 = adjustNutritionalValue a11 ''potassium'' (parseAndMultiply (Potassium serving) multiplier);
                   a13 = adjustNutritionalValue a12 ''calcium'' (parseAndMultiply (Calcium serving) multiplier);
                   a14 = adjustNutritionalValue a13 ''iron'' (parseAndMultiply (Iron serving) multiplier);
                   a15 = adjustNutritionalValue a14 ''vitamin_a'' (parseAndMultiply (VitaminA serving) multiplier);
                   a16 = adjustNutritionalValue a15 ''vitamin_b'' (parseAndMultiply (VitaminB serving) multiplier);
                   a17 = adjustNutritionalValue a16 ''vitamin_c'' (parseAndMultiply (VitaminC serving) multiplier);
                   a18 = adjustNutritionalValue a17 ''vitamin_d'' (parseAndMultiply (VitaminD serving) multiplier)
                   in a18)))"

text \<open>
  \<^verbatim>\<open>findPortionRatio\<close>: the loop returns at the first name equal under case
  folding; after the loop the integer division \<^verbatim>\<open>100 / len(foodWithPortions)\<close>
  panics when the list is empty.
\<close>

fun portionLoop :: "string \<Rightarrow> FoodWithPortion list \<Rightarrow> int option" where
  "portionLoop foodName [] = None"
| "portionLoop foodName (foodWithPortion # rest) =
     (if EqualFold foodName (Name foodWithPortion) then Some (PortionRatio foodWithPortion)
      else portionLoop foodName rest)"

definition findPortionRatio :: "string \<Rightarrow> FoodWithPortion list \<Rightarrow> panic + int" where
  "findPortionRatio foodName foodWithPortions =
     (case portionLoop foodName foodWithPortions of
        Some r \<Rightarrow> Inr r
      | None \<Rightarrow>
          if length foodWithPortions = 0 then Inl IntegerDivideByZero
          else Inr (100 div int (length foodWithPortions)))"

text \<open>
  \<^verbatim>\<open>adjustServingsByPortionRatio\<close>: a food without servings is copied; otherwise
  its first serving is replaced by the adjusted one.
\<close>

fun adjustServingsByPortionRatio ::
  "Food list \<Rightarrow> FoodWithPortion list \<Rightarrow> rat \<Rightarrow> panic + Food list" where
  "adjustServingsByPortionRatio [] foodWithPortions targetCalories = Inr []"
| "adjustServingsByPortionRatio (food # rest) foodWithPortions targetCalories =
     (if length (Servings food) > 0 then
        (case findPortionRatio (FoodName food) foodWithPortions of
           Inl e \<Rightarrow> Inl e
         | Inr portionRatio \<Rightarrow>
             (let targetCaloriesForFood = (targetCalories * of_int portionRatio) / 100;
                  adjustedServing =
                    adjustServingForTargetCalories (hd (Servings food)) targetCaloriesForFood
              in case adjustServingsByPortionRatio rest foodWithPortions targetCalories of
                   Inl e \<Rightarrow> Inl e
                 | Inr out \<Rightarrow> Inr (food\<lparr>Servings := (Servings food)[0 := adjustedServing]\<rparr> # out)))
      else
        (case adjustServingsByPortionRatio rest foodWithPortions targetCalories of
           Inl e \<Rightarrow> Inl e
         | Inr out \<Rightarrow> Inr (food # out)))"

section \<open>Macro Aggregator\<close>

definition parseFloatDefault :: "string \<Rightarrow> rat" where
  "parseFloatDefault s = (case ParseFloat s of None \<Rightarrow> 0 | Some v \<Rightarrow> v)"

definition addParsed :: "rat \<Rightarrow> string \<Rightarrow> rat" where
  "addParsed sofar s = (case ParseFloat s of Some v \<Rightarrow> sofar + v | None \<Rightarrow> sofar)"

fun macrosLoop :: "MacroTarget \<Rightarrow> Food list \<Rightarrow> MacroTarget" where
  "macrosLoop totals [] = totals"
| "macrosLoop totals (food # rest) =
     (if length (Servings food) > 0 then
        (let serving = hd (Servings food) in
         macrosLoop
           \<lparr>mtCalories = addParsed (mtCalories totals) (Calories serving),
            mtCarbs = addParsed (mtCarbs totals) (Carbohydrate serving),
            mtFats = addParsed (mtFats totals) (Fat serving),
            mtProteins = addParsed (mtProteins totals) (Protein serving)\<rparr> rest)
      else macrosLoop totals rest)"

definition calculateMealMacros :: "Food list \<Rightarrow> MacroTarget" where
  "calculateMealMacros foods =
     macrosLoop \<lparr>mtCalories = 0, mtCarbs = 0, mtFats = 0, mtProteins = 0\<rparr> foods"

section \<open>Macro Rebalancer\<close>

definition scaleServing :: "Serving \<Rightarrow> rat \<Rightarrow> Serving" where
  "scaleServing serving factor =
     (if factor \<le> 0 then serving
      else
        serving\<lparr>MetricServingAmount := Sprintf3 (parseFloatDefault (MetricServingAmount serving) * factor),
          Calories := Sprintf3 (parseFloatDefault (Calories serving) * factor),
          Protein := Sprintf3 (parseFloatDefault (Protein serving) * factor),
          Carbohydrate := Sprintf3 (parseFloatDefault (Carbohydrate serving) * factor),
          Fat := Sprintf3 (parseFloatDefault (Fat serving) * factor),
          Sugar := Sprintf3 (parseFloatDefault (Sugar serving) * factor),
          Fiber := Sprintf3 (parseFloatDefault (Fiber serving) * factor),
          SaturatedFat := Sprintf3 (parseFloatDefault (SaturatedFat serving) * factor),
          MonounsaturatedFat := Sprintf3 (parseFloatDefault (MonounsaturatedFat serving) * factor),
          PolyunsaturatedFat := Sprintf3 (parseFloatDefault (PolyunsaturatedFat serving) * factor),
          Cholesterol := Sprintf3 (parseFloatDefault (Cholesterol serving) * factor),
          Sodium := Sprintf3 (parseFloatDefault (Sodium serving) * factor),
          Potassium := Sprintf3 (parseFloatDefault (Potassium serving) * factor),
          Calcium := Sprintf3 (parseFloatDefault (Calcium serving) * factor),
          Iron := Sprintf3 (parseFloatDefault (Iron serving) * factor),
          VitaminA := Sprintf3 (parseFloatDefault (VitaminA serving) * factor),
          VitaminB := Sprintf3 (parseFloatDefault (VitaminB serving) * factor),
          VitaminC := Sprintf3 (parseFloatDefault (VitaminC serving) * factor),
          VitaminD := Sprintf3 (parseFloatDefault (VitaminD serving) * factor)\<rparr>)"

definition minFloat :: "rat \<Rightarrow> rat \<Rightarrow> rat" where
  "minFloat a b = (if a < b then a else b)"

definition fatKeywords :: "string list" where
  "fatKeywords =
     [''avocado'', ''almond'', ''walnut'', ''pecan'', ''cashew'', ''pistachio'', ''hazelnut'',
      ''macadamia'', ''peanut'', ''nut butter'', ''peanut butter'', ''almond butter'',
      ''tahini'', ''sesame'', ''sunflower seed'', ''pumpkin seed'', ''chia'', ''flax'',
      ''hemp'', ''olive oil'', ''olives'', ''cheese'']"

definition isWholeFoodFat :: "string \<Rightarrow> bool" where
  "isWholeFoodFat name = (let n = ToLower name in list_ex (\<lambda>k. Contains n k) fatKeywords)"

text \<open>The condition of the second loop of \<^verbatim>\<open>findBestFatFoodIndex\<close>.\<close>

definition isHighFatProtein :: "string \<Rightarrow> bool" where
  "isHighFatProtein foodName =
     (let name = ToLower foodName in
      Contains name ''salmon'' \<or> Contains name ''beef'' \<or> Contains name ''egg''
      \<or> Contains name ''whole milk'' \<or> Contains name ''cheese'')"

fun firstIndexFrom :: "(string \<Rightarrow> bool) \<Rightarrow> int \<Rightarrow> Food list \<Rightarrow> int" where
  "firstIndexFrom p i [] = - 1"
| "firstIndexFrom p i (f # rest) = (if p (FoodName f) then i else firstIndexFrom p (i + 1) rest)"

definition findBestFatFoodIndex :: "Food list \<Rightarrow> int" where
  "findBestFatFoodIndex foods =
     (let bestIdx = firstIndexFrom isWholeFoodFat 0 foods in
      if bestIdx \<noteq> - 1 then bestIdx else firstIndexFrom isHighFatProtein 0 foods)"

definition starchKeywords :: "string list" where
  "starchKeywords =
     [''rice'', ''oat'', ''oatmeal'', ''potato'', ''sweet potato'', ''pasta'', ''quinoa'',
      ''bread'', ''tortilla'', ''corn'', ''couscous'', ''barley'']"

definition isStarchyCarb :: "string \<Rightarrow> bool" where
  "isStarchyCarb name = (let n = ToLower name in list_ex (\<lambda>k. Contains n k) starchKeywords)"

fun starchyFrom :: "nat \<Rightarrow> Food list \<Rightarrow> nat list" where
  "starchyFrom i [] = []"
| "starchyFrom i (f # rest) =
     (if isStarchyCarb (FoodName f) then i # starchyFrom (i + 1) rest
      else starchyFrom (i + 1) rest)"

definition findStarchyCarbIndexes :: "Food list \<Rightarrow> nat list" where
  "findStarchyCarbIndexes foods = starchyFrom 0 foods"

text \<open>
  The two loops over \<^verbatim>\<open>starchyIndexes\<close> in \<^verbatim>\<open>rebalanceMealFoods\<close>. Every
  index that \<^verbatim>\<open>findStarchyCarbIndexes\<close> and \<^verbatim>\<open>findBestFatFoodIndex\<close>
  return is a position of the list (lemmas \<open>starchyFrom_range\<close> and
  \<open>findBestFatFoodIndex_range\<close> below), so no read is out of range.
\<close>

fun starchCarbsLoop :: "Food list \<Rightarrow> rat \<Rightarrow> nat list \<Rightarrow> rat" where
  "starchCarbsLoop foods starchCarbs [] = starchCarbs"
| "starchCarbsLoop foods starchCarbs (i # rest) =
     (if length (Servings (foods ! i)) > 0 then
        starchCarbsLoop foods
          (starchCarbs + parseFloatDefault (Carbohydrate (hd (Servings (foods ! i))))) rest
      else starchCarbsLoop foods starchCarbs rest)"

text \<open>
  The assignment \<^verbatim>\<open>foods[i].Servings[0] = scaleServing(foods[i].Servings[0], factor)\<close>,
  written for one food; every use is guarded by a non-empty serving list.
\<close>

definition scaleFirstServing :: "Food \<Rightarrow> rat \<Rightarrow> Food" where
  "scaleFirstServing food factor =
     food\<lparr>Servings := (Servings food)[0 := scaleServing (hd (Servings food)) factor]\<rparr>"

fun scaleLoop :: "Food list \<Rightarrow> rat \<Rightarrow> nat list \<Rightarrow> Food list" where
  "scaleLoop foods factor [] = foods"
| "scaleLoop foods factor (i # rest) =
     (if length (Servings (foods ! i)) > 0 then
        scaleLoop (foods[i := scaleFirstServing (foods ! i) factor]) factor rest
      else scaleLoop foods factor rest)"

definition tolerance :: rat where
  "tolerance = 5 / 100"

definition fatCorrection :: "Food list \<Rightarrow> MacroTarget \<Rightarrow> MacroTarget \<Rightarrow> Food list" where
  "fatCorrection foods target totals =
     (let fatLowerBound = mtFats target * (1 - tolerance) in
      if mtFats totals < fatLowerBound then
        (let neededFat = fatLowerBound - mtFats totals;
             idx = findBestFatFoodIndex foods
         in if idx \<ge> 0 \<and> length (Servings (foods ! nat idx)) > 0 then
              (let serving = hd (Servings (foods ! nat idx));
                   fatPerUnit = parseFloatDefault (Fat serving)
               in if fatPerUnit > 0 then
                    (let factor = 1 + minFloat (6 / 10) (neededFat / fatPerUnit * (8 / 10))
                     in foods[nat idx := scaleFirstServing (foods ! nat idx) factor])
                  else foods)
            else foods)
      else foods)"

definition carbCorrection :: "Food list \<Rightarrow> MacroTarget \<Rightarrow> MacroTarget \<Rightarrow> Food list" where
  "carbCorrection foods target totals =
     (let carbUpperBound = mtCarbs target * (1 + tolerance) in
      if mtCarbs totals > carbUpperBound then
        (let excessCarb = mtCarbs totals - carbUpperBound;
             starchyIndexes = findStarchyCarbIndexes foods
         in if length starchyIndexes > 0 then
              (let starchCarbs = starchCarbsLoop foods 0 starchyIndexes
               in if starchCarbs > 0 then
                    (let reductionFrac = minFloat (35 / 100) (excessCarb / starchCarbs);
                         factor = 1 - reductionFrac
                     in scaleLoop foods factor starchyIndexes)
                  else foods)
            else foods)
      else foods)"

text \<open>
  One iteration of the loop of \<^verbatim>\<open>rebalanceMealFoods\<close>: the totals are computed
  once, before the fat correction, and the carb correction works on the list the fat
  correction left.
\<close>

definition rebalancePass :: "Food list \<Rightarrow> MacroTarget \<Rightarrow> Food list" where
  "rebalancePass foods target =
     (let totals = calculateMealMacros foods;
          foods1 = fatCorrection foods target totals
      in carbCorrection foods1 target totals)"

function rebalanceLoop :: "nat \<Rightarrow> Food list \<Rightarrow> MacroTarget \<Rightarrow> Food list" where
  "rebalanceLoop pass foods target =
     (if pass < 2 then rebalanceLoop (pass + 1) (rebalancePass foods target) target
      else foods)"
  by pat_completeness auto
termination
  by (relation "measure (\<lambda>(pass, foods, target). 2 - pass)") auto

definition rebalanceMealFoods :: "Food list \<Rightarrow> MacroTarget \<Rightarrow> Food list" where
  "rebalanceMealFoods foods target = rebalanceLoop 0 foods target"

section \<open>Concurrent Food Resolver\<close>

text \<open>
  \<^verbatim>\<open>batchFetchFoods\<close> starts one goroutine per key of \<^verbatim>\<open>uniqueFoods\<close> and
  waits for all of them. The model is an interleaving of the synchronisation steps of the
  source. Every goroutine is at one of the following places of its body; the deferred calls
  run in reverse order of their registration, the semaphore release before
  \<^verbatim>\<open>wg.Done\<close>.
\<close>

datatype gpc =
    NotStarted
  | AtAcquire
  | AtSearch
  | InSearch
  | AtLock "Food option"
  | AtStore "Food option"
  | AtUnlock
  | AtRelease
  | AtDone
  | Finished

record bstate =
  pending :: "string list"
  procs :: "string \<Rightarrow> gpc"
  sem :: nat
  mutexHeld :: bool
  wg :: nat
  foodResults :: "string \<rightharpoonup> Food option"
  apiCalls :: nat
  calls :: "string list"
  returned :: "(string \<rightharpoonup> Food option) option"

text \<open>
  The events a scheduler can fire. \<open>pending\<close> is the part of the key enumeration the
  loop of the main goroutine has not reached; \<open>calls\<close> records the invocations of
  \<^verbatim>\<open>SearchFood\<close> in the order they start; \<open>returned\<close> is the map handed to the
  caller. The lookup \<^verbatim>\<open>foodService.SearchFood\<close> is a parameter: it answers an error
  or a list of foods.
\<close>

text \<open>
  \<open>Spawn\<close>: one iteration of the \<^verbatim>\<open>range\<close> loop (\<^verbatim>\<open>apiCalls++\<close>,
  \<^verbatim>\<open>wg.Add(1)\<close>, \<^verbatim>\<open>go\<close>). \<open>Acquire\<close>: the send on the semaphore
  channel, which blocks while its 10 slots are taken. \<open>CallSearch\<close>, \<open>SearchReturns\<close>:
  the start and the end of \<^verbatim>\<open>SearchFood\<close>. \<open>Lock\<close>, \<open>Store\<close>, \<open>Unlock\<close>:
  \<^verbatim>\<open>mutex.Lock()\<close>, \<^verbatim>\<open>foodResults[name] = food\<close>,
  \<^verbatim>\<open>mutex.Unlock()\<close>. \<open>Release\<close>, \<open>Done\<close>: the two deferred calls.
  \<open>WaitReturn\<close>: \<^verbatim>\<open>wg.Wait()\<close> followed by the return, possible once the
  loop has ended and the counter is zero.
\<close>

datatype event =
    Spawn
  | Acquire string
  | CallSearch string
  | SearchReturns string
  | Lock string
  | Store string
  | Unlock string
  | Release string
  | Done string
  | WaitReturn

definition semaphoreCap :: nat where
  "semaphoreCap = 10"

definition firstFood :: "string + Food list \<Rightarrow> Food option" where
  "firstFood r = (case r of Inl err \<Rightarrow> None | Inr foods \<Rightarrow> (case foods of [] \<Rightarrow> None | f # _ \<Rightarrow> Some f))"

definition initState :: "string list \<Rightarrow> bstate" where
  "initState names =
     \<lparr>pending = names, procs = (\<lambda>n. NotStarted), sem = 0, mutexHeld = False, wg = 0,
      foodResults = Map.empty, apiCalls = 0, calls = [], returned = None\<rparr>"

fun fire :: "(string \<Rightarrow> string + Food list) \<Rightarrow> event \<Rightarrow> bstate \<Rightarrow> bstate option" where
  "fire sf Spawn s =
     (case pending s of
        [] \<Rightarrow> None
      | n # rest \<Rightarrow>
          Some (s\<lparr>pending := rest, apiCalls := apiCalls s + 1, wg := wg s + 1,
                  procs := (procs s)(n := AtAcquire)\<rparr>))"
| "fire sf (Acquire n) s =
     (if procs s n = AtAcquire \<and> sem s < semaphoreCap
      then Some (s\<lparr>sem := sem s + 1, procs := (procs s)(n := AtSearch)\<rparr>) else None)"
| "fire sf (CallSearch n) s =
     (if procs s n = AtSearch
      then Some (s\<lparr>calls := calls s @ [n], procs := (procs s)(n := InSearch)\<rparr>) else None)"
| "fire sf (SearchReturns n) s =
     (if procs s n = InSearch
      then Some (s\<lparr>procs := (procs s)(n := AtLock (firstFood (sf n)))\<rparr>) else None)"
| "fire sf (Lock n) s =
     (case procs s n of
        AtLock food \<Rightarrow>
          if mutexHeld s then None
          else Some (s\<lparr>mutexHeld := True, procs := (procs s)(n := AtStore food)\<rparr>)
      | _ \<Rightarrow> None)"
| "fire sf (Store n) s =
     (case procs s n of
        AtStore food \<Rightarrow>
          Some (s\<lparr>foodResults := (foodResults s)(n \<mapsto> food), procs := (procs s)(n := AtUnlock)\<rparr>)
      | _ \<Rightarrow> None)"
| "fire sf (Unlock n) s =
     (if procs s n = AtUnlock
      then Some (s\<lparr>mutexHeld := False, procs := (procs s)(n := AtRelease)\<rparr>) else None)"
| "fire sf (Release n) s =
     (if procs s n = AtRelease \<and> sem s > 0
      then Some (s\<lparr>sem := sem s - 1, procs := (procs s)(n := AtDone)\<rparr>) else None)"
| "fire sf (Done n) s =
     (if procs s n = AtDone \<and> wg s > 0
      then Some (s\<lparr>wg := wg s - 1, procs := (procs s)(n := Finished)\<rparr>) else None)"
| "fire sf WaitReturn s =
     (if pending s = [] \<and> wg s = 0 \<and> returned s = None
      then Some (s\<lparr>returned := Some (foodResults s)\<rparr>) else None)"

fun run :: "(string \<Rightarrow> string + Food list) \<Rightarrow> event list \<Rightarrow> bstate \<Rightarrow> bstate option" where
  "run sf [] s = Some s"
| "run sf (e # es) s = (case fire sf e s of None \<Rightarrow> None | Some s' \<Rightarrow> run sf es s')"

text \<open>Places of a goroutine, grouped by what it holds or has done there.\<close>

fun holdsSlot :: "gpc \<Rightarrow> bool" where
  "holdsSlot AtSearch = True"
| "holdsSlot InSearch = True"
| "holdsSlot (AtLock food) = True"
| "holdsSlot (AtStore food) = True"
| "holdsSlot AtUnlock = True"
| "holdsSlot AtRelease = True"
| "holdsSlot pc = False"

fun holdsMutex :: "gpc \<Rightarrow> bool" where
  "holdsMutex (AtStore food) = True"
| "holdsMutex AtUnlock = True"
| "holdsMutex pc = False"

fun active :: "gpc \<Rightarrow> bool" where
  "active NotStarted = False"
| "active Finished = False"
| "active pc = True"

fun hasStored :: "gpc \<Rightarrow> bool" where
  "hasStored AtUnlock = True"
| "hasStored AtRelease = True"
| "hasStored AtDone = True"
| "hasStored Finished = True"
| "hasStored pc = False"

fun hasCalled :: "gpc \<Rightarrow> bool" where
  "hasCalled NotStarted = False"
| "hasCalled AtAcquire = False"
| "hasCalled AtSearch = False"
| "hasCalled pc = True"

fun carried :: "gpc \<Rightarrow> Food option option" where
  "carried (AtLock food) = Some food"
| "carried (AtStore food) = Some food"
| "carried pc = None"

fun rank :: "gpc \<Rightarrow> nat" where
  "rank NotStarted = 9"
| "rank AtAcquire = 8"
| "rank AtSearch = 7"
| "rank InSearch = 6"
| "rank (AtLock food) = 5"
| "rank (AtStore food) = 4"
| "rank AtUnlock = 3"
| "rank AtRelease = 2"
| "rank AtDone = 1"
| "rank Finished = 0"

definition countPc :: "(gpc \<Rightarrow> bool) \<Rightarrow> string list \<Rightarrow> (string \<Rightarrow> gpc) \<Rightarrow> nat" where
  "countPc P names f = length (filter (\<lambda>n. P (f n)) names)"

definition rankSum :: "string list \<Rightarrow> (string \<Rightarrow> gpc) \<Rightarrow> nat" where
  "rankSum names f = sum_list (map (\<lambda>n. rank (f n)) names)"

definition weight :: "string list \<Rightarrow> bstate \<Rightarrow> nat" where
  "weight names s = rankSum names (procs s) + (if returned s = None then 1 else 0)"

definition resolverInv :: "(string \<Rightarrow> string + Food list) \<Rightarrow> string list \<Rightarrow> bstate \<Rightarrow> bool" where
  "resolverInv sf names s =
     (distinct names \<and> distinct (pending s) \<and> set (pending s) \<subseteq> set names
      \<and> (\<forall>n. procs s n = NotStarted \<longleftrightarrow> (n \<notin> set names \<or> n \<in> set (pending s)))
      \<and> sem s = countPc holdsSlot names (procs s) \<and> sem s \<le> semaphoreCap
      \<and> (if mutexHeld s then 1 else 0) = countPc holdsMutex names (procs s)
      \<and> wg s = countPc active names (procs s)
      \<and> (\<forall>n. foodResults s n = (if hasStored (procs s n) then Some (firstFood (sf n)) else None))
      \<and> (\<forall>n food. carried (procs s n) = Some food \<longrightarrow> food = firstFood (sf n))
      \<and> distinct (calls s) \<and> set (calls s) = {n. hasCalled (procs s n)}
      \<and> apiCalls s + length (pending s) = length names
      \<and> (\<forall>m. returned s = Some m \<longrightarrow> m = foodResults s \<and> pending s = [] \<and> wg s = 0))"

text \<open>
  The caller's collection of the unique names (\<^verbatim>\<open>swapFoodItems\<close>,
  \<^verbatim>\<open>processRegenerationResponse\<close>): every food name of every meal becomes a key
  of the map \<^verbatim>\<open>uniqueFoods\<close>. The \<^verbatim>\<open>range\<close> loop of
  \<^verbatim>\<open>batchFetchFoods\<close> visits the keys in an order Go leaves open: any list
  without repetition that holds exactly the keys.
\<close>

fun collectNames :: "(string \<rightharpoonup> bool) \<Rightarrow> FoodWithPortion list \<Rightarrow> (string \<rightharpoonup> bool)" where
  "collectNames uniqueFoods [] = uniqueFoods"
| "collectNames uniqueFoods (foodWithPortion # rest) =
     collectNames (uniqueFoods(Name foodWithPortion \<mapsto> True)) rest"

fun collectPlan ::
  "(string \<rightharpoonup> bool) \<Rightarrow> FoodWithPortion list list \<Rightarrow> (string \<rightharpoonup> bool)" where
  "collectPlan uniqueFoods [] = uniqueFoods"
| "collectPlan uniqueFoods (mealFoods # rest) =
     collectPlan (collectNames uniqueFoods mealFoods) rest"

section \<open>Predicates and sample data used by the properties\<close>

definition servingComplete :: "Serving \<Rightarrow> bool" where
  "servingComplete s =
     (ServingID s \<noteq> [] \<and> ServingDescription s \<noteq> [] \<and> MeasurementDescription s \<noteq> []
      \<and> MetricServingAmount s \<noteq> [] \<and> MetricServingUnit s \<noteq> [] \<and> NumberOfUnits s \<noteq> []
      \<and> Calories s \<noteq> [] \<and> Protein s \<noteq> [] \<and> Carbohydrate s \<noteq> [] \<and> Fat s \<noteq> []
      \<and> Sugar s \<noteq> [] \<and> Fiber s \<noteq> [] \<and> SaturatedFat s \<noteq> [] \<and> MonounsaturatedFat s \<noteq> []
      \<and> PolyunsaturatedFat s \<noteq> [] \<and> Cholesterol s \<noteq> [] \<and> Sodium s \<noteq> [] \<and> Potassium s \<noteq> []
      \<and> Calcium s \<noteq> [] \<and> Iron s \<noteq> [] \<and> VitaminA s \<noteq> [] \<and> VitaminB s \<noteq> []
      \<and> VitaminC s \<noteq> [] \<and> VitaminD s \<noteq> [])"

definition blankServing :: Serving where
  "blankServing =
     \<lparr>ServingID = [], ServingDescription = [], MeasurementDescription = [],
      MetricServingAmount = [], MetricServingUnit = [], NumberOfUnits = [],
      Calories = [], Protein = [], Carbohydrate = [], Fat = [], Sugar = [], Fiber = [],
      SaturatedFat = [], MonounsaturatedFat = [], PolyunsaturatedFat = [], Cholesterol = [],
      Sodium = [], Potassium = [], Calcium = [], Iron = [],
      VitaminA = [], VitaminB = [], VitaminC = [], VitaminD = []\<rparr>"

definition cupServing :: Serving where
  "cupServing =
     blankServing\<lparr>ServingID := ''1'', ServingDescription := ''1 cup'',
       MeasurementDescription := ''cup'', MetricServingAmount := ''240'',
       MetricServingUnit := ''g'', NumberOfUnits := ''1'', Calories := ''100''\<rparr>"

definition gramServingNoID :: Serving where
  "gramServingNoID =
     blankServing\<lparr>ServingDescription := ''100 g'', MeasurementDescription := ''g'',
       MetricServingAmount := ''100'', MetricServingUnit := ''g'', NumberOfUnits := ''100'',
       Calories := ''50''\<rparr>"

definition gram100 :: Serving where
  "gram100 =
     blankServing\<lparr>ServingID := ''7'', ServingDescription := ''100 g'',
       MeasurementDescription := ''g'', MetricServingAmount := ''100'',
       MetricServingUnit := ''g'', NumberOfUnits := ''100'', Calories := ''100'',
       Protein := ''10'', Carbohydrate := ''2'', Fat := ''5''\<rparr>"

definition tofuFood :: Food where
  "tofuFood = \<lparr>FoodID = ''41'', FoodName = ''Tofu, firm'', FoodType = ''Generic'',
      BrandName = [], Servings = [gram100]\<rparr>"

definition threeRequests :: "FoodWithPortion list" where
  "threeRequests =
     [\<lparr>Name = ''Tofu'', PortionRatio = 40\<rparr>, \<lparr>Name = ''Rice'', PortionRatio = 30\<rparr>,
      \<lparr>Name = ''Kale'', PortionRatio = 30\<rparr>]"

text \<open>
  The frame of the rebalancer: two servings agree on the descriptive fields; two foods
  agree on everything except the amount and the nutrient fields of the first serving.
\<close>

definition descriptiveEq :: "Serving \<Rightarrow> Serving \<Rightarrow> bool" where
  "descriptiveEq s s' =
     (ServingID s' = ServingID s \<and> ServingDescription s' = ServingDescription s
      \<and> MeasurementDescription s' = MeasurementDescription s
      \<and> MetricServingUnit s' = MetricServingUnit s \<and> NumberOfUnits s' = NumberOfUnits s)"

definition foodFrame :: "Food \<Rightarrow> Food \<Rightarrow> bool" where
  "foodFrame f f' =
     (FoodID f' = FoodID f \<and> FoodName f' = FoodName f \<and> FoodType f' = FoodType f
      \<and> BrandName f' = BrandName f
      \<and> (case Servings f of
            [] \<Rightarrow> Servings f' = []
          | s # others \<Rightarrow> (\<exists>s'. Servings f' = s' # others \<and> descriptiveEq s s')))"

text \<open>
  The position of the first food whose name satisfies a test, and the result of
  \<^verbatim>\<open>findBestFatFoodIndex\<close> read as such a position.
\<close>

fun firstMatch :: "(string \<Rightarrow> bool) \<Rightarrow> Food list \<Rightarrow> nat option" where
  "firstMatch p [] = None"
| "firstMatch p (f # fs) = (if p (FoodName f) then Some 0 else map_option Suc (firstMatch p fs))"

definition fatTargetIndex :: "Food list \<Rightarrow> nat option" where
  "fatTargetIndex foods =
     (case firstMatch isWholeFoodFat foods of
        Some i \<Rightarrow> Some i
      | None \<Rightarrow> firstMatch isHighFatProtein foods)"

text \<open>The value a number has after it is formatted with three decimals and parsed back.\<close>

definition round3 :: "rat \<Rightarrow> rat" where
  "round3 x = of_int (roundHalfEven (x * 1000)) / 1000"

text \<open>The amount and the eighteen nutrient fields of a serving.\<close>

definition numericFields :: "(Serving \<Rightarrow> string) list" where
  "numericFields =
     [MetricServingAmount, Calories, Protein, Carbohydrate, Fat, Sugar, Fiber, SaturatedFat,
      MonounsaturatedFat, PolyunsaturatedFat, Cholesterol, Sodium, Potassium, Calcium, Iron,
      VitaminA, VitaminB, VitaminC, VitaminD]"

text \<open>What a food contributes to the aggregated fat and carbohydrate.\<close>

definition firstFat :: "Food \<Rightarrow> rat" where
  "firstFat f = (case Servings f of [] \<Rightarrow> 0 | s # _ \<Rightarrow> parseFloatDefault (Fat s))"

definition firstCarbs :: "Food \<Rightarrow> rat" where
  "firstCarbs f = (case Servings f of [] \<Rightarrow> 0 | s # _ \<Rightarrow> parseFloatDefault (Carbohydrate s))"

definition riceFood :: Food where
  "riceFood =
     \<lparr>FoodID = ''12'', FoodName = ''Brown Rice'', FoodType = ''Generic'', BrandName = [],
      Servings = [blankServing\<lparr>ServingID := ''3'', ServingDescription := ''100 g'',
        MeasurementDescription := ''g'', MetricServingAmount := ''100'',
        MetricServingUnit := ''g'', NumberOfUnits := ''100'', Calories := ''520'',
        Protein := ''8'', Carbohydrate := ''100'', Fat := ''10''\<rparr>]\<rparr>"

definition avocadoFood :: Food where
  "avocadoFood =
     \<lparr>FoodID = ''15'', FoodName = ''Avocado'', FoodType = ''Generic'', BrandName = [],
      Servings = [blankServing\<lparr>ServingID := ''5'', ServingDescription := ''100 g'',
        MeasurementDescription := ''g'', MetricServingAmount := ''100'',
        MetricServingUnit := ''g'', NumberOfUnits := ''100'', Calories := ''120'',
        Protein := ''2'', Carbohydrate := ''5'', Fat := ''10''\<rparr>]\<rparr>"

definition riceTarget :: MacroTarget where
  "riceTarget = \<lparr>mtCalories = 500, mtCarbs = 50, mtFats = 10, mtProteins = 25\<rparr>"

definition avocadoTarget :: MacroTarget where
  "avocadoTarget = \<lparr>mtCalories = 500, mtCarbs = 50, mtFats = 20, mtProteins = 25\<rparr>"

definition sampleSearch :: "string \<Rightarrow> string + Food list" where
  "sampleSearch n = (if n = ''Rice'' then Inr [riceFood] else Inl ''no result'')"

definition sampleMeals :: "FoodWithPortion list list" where
  "sampleMeals =
     [[\<lparr>Name = ''Rice'', PortionRatio = 60\<rparr>, \<lparr>Name = ''Tofu'', PortionRatio = 40\<rparr>],
      [\<lparr>Name = ''Rice'', PortionRatio = 100\<rparr>]]"

definition sampleNames :: "string list" where
  "sampleNames = [''Tofu'', ''Rice'']"

definition midSchedule :: "event list" where
  "midSchedule =
     [Spawn, Spawn, Acquire ''Rice'', Acquire ''Tofu'', CallSearch ''Tofu'', CallSearch ''Rice'',
      SearchReturns ''Rice'', SearchReturns ''Tofu'', Lock ''Tofu'']"

definition sampleSchedule :: "event list" where
  "sampleSchedule =
     midSchedule @
     [Store ''Tofu'', Unlock ''Tofu'', Lock ''Rice'', Store ''Rice'', Unlock ''Rice'',
      Release ''Rice'', Release ''Tofu'', Done ''Tofu'', Done ''Rice'', WaitReturn]"

section \<open>The fat correction in the words of the specification\<close>

text \<open>
  Section 4.4 of the specification, written down without the functions of the code. The
  keyword lists are the ones the specification prints; a name has a keyword when it
  contains it (letters compared without case, as \<^verbatim>\<open>strings.ToLower\<close> and
  \<^verbatim>\<open>strings.Contains\<close> do). A field has the value it parses to, 0 when it does
  not parse. Scaling a serving multiplies its gram amount and every nutrient field by the
  factor and formats the product with three decimals. The aggregated fat is the sum of the
  fat of the first serving of every food.
\<close>

definition specWholeFoodFatKeywords :: "string list" where
  "specWholeFoodFatKeywords =
     [''avocado'', ''almond'', ''walnut'', ''pecan'', ''cashew'', ''pistachio'', ''hazelnut'',
      ''macadamia'', ''peanut'', ''nut butter'', ''peanut butter'', ''almond butter'',
      ''tahini'', ''sesame'', ''sunflower seed'', ''pumpkin seed'', ''chia'', ''flax'',
      ''hemp'', ''olive oil'', ''olives'', ''cheese'']"

definition specHighFatProteinKeywords :: "string list" where
  "specHighFatProteinKeywords = [''salmon'', ''beef'', ''egg'', ''whole milk'', ''cheese'']"

definition specNameHas :: "string list \<Rightarrow> string \<Rightarrow> bool" where
  "specNameHas keywords name = list_ex (\<lambda>k. Contains (ToLower name) k) keywords"

definition specValue :: "string \<Rightarrow> rat" where
  "specValue v = (case ParseFloat v of Some x \<Rightarrow> x | None \<Rightarrow> 0)"

definition specScaled :: "Serving \<Rightarrow> rat \<Rightarrow> Serving" where
  "specScaled s factor =
     s\<lparr>MetricServingAmount := Sprintf3 (specValue (MetricServingAmount s) * factor),
       Calories := Sprintf3 (specValue (Calories s) * factor),
       Protein := Sprintf3 (specValue (Protein s) * factor),
       Carbohydrate := Sprintf3 (specValue (Carbohydrate s) * factor),
       Fat := Sprintf3 (specValue (Fat s) * factor),
       Sugar := Sprintf3 (specValue (Sugar s) * factor),
       Fiber := Sprintf3 (specValue (Fiber s) * factor),
       SaturatedFat := Sprintf3 (specValue (SaturatedFat s) * factor),
       MonounsaturatedFat := Sprintf3 (specValue (MonounsaturatedFat s) * factor),
       PolyunsaturatedFat := Sprintf3 (specValue (PolyunsaturatedFat s) * factor),
       Cholesterol := Sprintf3 (specValue (Cholesterol s) * factor),
       Sodium := Sprintf3 (specValue (Sodium s) * factor),
       Potassium := Sprintf3 (specValue (Potassium s) * factor),
       Calcium := Sprintf3 (specValue (Calcium s) * factor),
       Iron := Sprintf3 (specValue (Iron s) * factor),
       VitaminA := Sprintf3 (specValue (VitaminA s) * factor),
       VitaminB := Sprintf3 (specValue (VitaminB s) * factor),
       VitaminC := Sprintf3 (specValue (VitaminC s) * factor),
       VitaminD := Sprintf3 (specValue (VitaminD s) * factor)\<rparr>"

definition specAggregatedFat :: "Food list \<Rightarrow> rat" where
  "specAggregatedFat foods =
     sum_list (map (\<lambda>f. case Servings f of [] \<Rightarrow> 0 | s # others \<Rightarrow> specValue (Fat s)) foods)"

definition specFatTarget :: "Food list \<Rightarrow> nat option" where
  "specFatTarget foods =
     (case firstMatch (specNameHas specWholeFoodFatKeywords) foods of
        Some i \<Rightarrow> Some i
      | None \<Rightarrow> firstMatch (specNameHas specHighFatProteinKeywords) foods)"

definition specFatCorrection :: "Food list \<Rightarrow> MacroTarget \<Rightarrow> Food list" where
  "specFatCorrection foods target =
     (if specAggregatedFat foods < mtFats target * (95 / 100) then
        (let deficit = mtFats target * (95 / 100) - specAggregatedFat foods in
         case specFatTarget foods of
           None \<Rightarrow> foods
         | Some i \<Rightarrow>
             (case Servings (foods ! i) of
                [] \<Rightarrow> foods
              | s # others \<Rightarrow>
                  if specValue (Fat s) > 0 then
                    foods[i := (foods ! i)\<lparr>Servings :=
                       specScaled s (1 + min (6 / 10) (deficit / specValue (Fat s) * (8 / 10)))
                         # others\<rparr>]
                  else foods))
      else foods)"

definition eggFood :: Food where
  "eggFood =
     \<lparr>FoodID = ''19'', FoodName = ''Scrambled Egg'', FoodType = ''Generic'', BrandName = [],
      Servings = [blankServing\<lparr>ServingID := ''6'', ServingDescription := ''100 g'',
        MeasurementDescription := ''g'', MetricServingAmount := ''100'',
        MetricServingUnit := ''g'', NumberOfUnits := ''100'', Calories := ''150'',
        Protein := ''10'', Carbohydrate := ''2'', Fat := ''8''\<rparr>]\<rparr>"

definition traceServing :: Serving where
  "traceServing = gram100\<lparr>Iron := ''0.001'', VitaminD := ''0.00077''\<rparr>"

section \<open>Serving Selector: properties\<close>

lemma fillDefaults_complete: "servingComplete (fillDefaults s)"
  by (simp add: servingComplete_def fillDefaults_def orDefault_def)

lemma ensureServingFields_complete: "servingComplete (ensureServingFields sel avail)"
  by (simp add: ensureServingFields_def Let_def fillDefaults_complete)

lemma filterGramServings_nonempty: "ss \<noteq> [] \<Longrightarrow> filterGramServings ss \<noteq> []"
  by (simp add: filterGramServings_def Let_def)

lemma selectServings_Nil: "selectServings ss = [] \<longleftrightarrow> ss = []"
proof (cases ss)
  case Nil
  then show ?thesis by (simp add: selectServings_def filterGramServings_def)
next
  case (Cons a list)
  then have "filterGramServings ss \<noteq> []" by (simp add: filterGramServings_nonempty)
  with Cons show ?thesis by (auto simp add: selectServings_def Let_def split: list.splits)
qed

lemma selectServings_fill:
  "selectServings ss =
     (case filterGramServings ss of [] \<Rightarrow> [] | s # rest \<Rightarrow> fillDefaults s # rest)"
  by (simp add: selectServings_def ensureServingFields_def Let_def split: list.splits)

lemma gramLoop_filter: "gramLoop gramServings ss = gramServings @ filter isGramServing ss"
  by (induction ss arbitrary: gramServings) simp_all

lemma filterGramServings_first:
  "ss \<noteq> [] \<Longrightarrow>
   \<exists>rest. filterGramServings ss
     = (case filter isGramServing ss of [] \<Rightarrow> hd ss | g # gs \<Rightarrow> g) # rest"
  by (cases "filter isGramServing ss") (simp_all add: filterGramServings_def gramLoop_filter)

text \<open>
  Claim C2 as stated, with the empty input list among the lists for which a complete
  serving is selected, fails. For the empty list the gram filter returns the empty list,
  the repair is skipped, and the food keeps an empty serving list: no serving is selected.
\<close>

theorem empty_list_selects_no_serving:
  "filterGramServings [] = [] \<and> selectServings [] = []"
  by code_simp

text \<open>
  Claim C2, amended. For every input serving list that has an element, the selection step
  (gram filter, then repair of the first serving) selects a serving: the first gram
  serving of the list, or the first serving of the list when none is in grams, with the
  field defaults applied; none of its twenty-four fields (six descriptive, eighteen
  nutrient fields) is empty.
\<close>

theorem nonempty_list_selects_complete_serving:
  "ss \<noteq> [] \<Longrightarrow>
   \<exists>s rest. selectServings ss = s # rest \<and> servingComplete s
     \<and> s = fillDefaults (case filter isGramServing ss of [] \<Rightarrow> hd ss | g # gs \<Rightarrow> g)"
proof -
  assume "ss \<noteq> []"
  from filterGramServings_first [OF this] obtain rest where
    "filterGramServings ss
       = (case filter isGramServing ss of [] \<Rightarrow> hd ss | g # gs \<Rightarrow> g) # rest" ..
  then have "selectServings ss
       = fillDefaults (case filter isGramServing ss of [] \<Rightarrow> hd ss | g # gs \<Rightarrow> g) # rest"
    by (simp add: selectServings_fill)
  then show ?thesis using fillDefaults_complete by blast
qed

theorem nonempty_list_selects_complete_serving_witness:
  "[cupServing] \<noteq> [] \<and> filter isGramServing [cupServing] = []
   \<and> selectServings [cupServing] = [fillDefaults cupServing]
   \<and> servingComplete (fillDefaults cupServing)
   \<and> Protein cupServing = [] \<and> Protein (fillDefaults cupServing) = ''0''"
proof -
  have n: "[cupServing] \<noteq> []" by simp
  have f: "filter isGramServing [cupServing] = []" by code_simp
  have e: "selectServings [cupServing] = [fillDefaults cupServing]" by code_simp
  have p: "Protein cupServing = [] \<and> Protein (fillDefaults cupServing) = ''0''" by code_simp
  from nonempty_list_selects_complete_serving [OF n] obtain s rest where
    "selectServings [cupServing] = s # rest" "servingComplete s" by blast
  with e have "servingComplete (fillDefaults cupServing)" by simp
  with n f e p show ?thesis by simp
qed

section \<open>Portion Scaler: properties\<close>

text \<open>
  Claim C4. When the calories field or the metric serving amount of a serving does not
  parse, or parses to zero, \<^verbatim>\<open>adjustServingForTargetCalories\<close> returns the serving
  itself, whatever the target calories: every field is the one it was.
\<close>

theorem adjustServing_degenerate_unscaled:
  "ParseFloat (Calories s) = None \<or> ParseFloat (Calories s) = Some 0
   \<or> ParseFloat (MetricServingAmount s) = None \<or> ParseFloat (MetricServingAmount s) = Some 0
   \<Longrightarrow> adjustServingForTargetCalories s t = s"
  by (auto simp add: adjustServingForTargetCalories_def split: option.splits)

theorem adjustServing_degenerate_unscaled_witness:
  "ParseFloat (Calories (blankServing\<lparr>Calories := ''0'', MetricServingAmount := ''100''\<rparr>)) = Some 0
   \<and> adjustServingForTargetCalories
        (blankServing\<lparr>Calories := ''0'', MetricServingAmount := ''100''\<rparr>) 250
      = blankServing\<lparr>Calories := ''0'', MetricServingAmount := ''100''\<rparr>
   \<and> ParseFloat (MetricServingAmount (blankServing\<lparr>Calories := ''52'', MetricServingAmount := ''n/a''\<rparr>)) = None
   \<and> adjustServingForTargetCalories
        (blankServing\<lparr>Calories := ''52'', MetricServingAmount := ''n/a''\<rparr>) 250
      = blankServing\<lparr>Calories := ''52'', MetricServingAmount := ''n/a''\<rparr>"
proof -
  have h1: "ParseFloat (Calories (blankServing\<lparr>Calories := ''0'', MetricServingAmount := ''100''\<rparr>)) = Some 0"
    by code_simp
  have h2: "ParseFloat (MetricServingAmount (blankServing\<lparr>Calories := ''52'', MetricServingAmount := ''n/a''\<rparr>)) = None"
    by code_simp
  show ?thesis
    using h1 h2
      adjustServing_degenerate_unscaled
        [of "blankServing\<lparr>Calories := ''0'', MetricServingAmount := ''100''\<rparr>" 250]
      adjustServing_degenerate_unscaled
        [of "blankServing\<lparr>Calories := ''52'', MetricServingAmount := ''n/a''\<rparr>" 250]
    by blast
qed

section \<open>Serving Selector: the replacement branch of the repair\<close>

lemma ensureServingFields_own_head:
  "ensureServingFields first (first # rest) = fillDefaults first"
  by (simp add: ensureServingFields_def)

text \<open>
  Claim C7. The replacement that \<^verbatim>\<open>ensureServingFields\<close> announces (``use the
  first available serving'') never takes effect in the selection step: the caller has
  already overwritten the serving list of the food with the gram-filtered list, and hands
  over that list together with its own first element, so the replacement of the selected
  serving is the selected serving itself (lemma \<open>ensureServingFields_own_head\<close>). The
  evaluation below is at a candidate whose original list is a complete cup serving
  followed by a gram serving without identifier. The gram filter keeps the gram serving
  alone; its identifier is empty; the repaired serving is not the first serving of the
  original list, the cup serving, but the gram serving itself with the default identifier
  and its own calories.
\<close>

theorem replacement_is_the_selected_serving:
  "filterGramServings [cupServing, gramServingNoID] = [gramServingNoID]
   \<and> ServingID gramServingNoID = []
   \<and> ensureServingFields gramServingNoID (filterGramServings [cupServing, gramServingNoID])
       = fillDefaults gramServingNoID
   \<and> selectServings [cupServing, gramServingNoID] = [fillDefaults gramServingNoID]
   \<and> hd (selectServings [cupServing, gramServingNoID]) \<noteq> fillDefaults cupServing
   \<and> ServingID (hd (selectServings [cupServing, gramServingNoID])) = ''default''
   \<and> Calories (hd (selectServings [cupServing, gramServingNoID])) = ''50''
   \<and> ServingID (fillDefaults cupServing) = ''1''
   \<and> Calories (fillDefaults cupServing) = ''100''"
  by code_simp

section \<open>Portion Scaler: the default ratio\<close>

lemma portionLoop_None:
  "portionLoop n fwp = None \<longleftrightarrow> (\<forall>p \<in> set fwp. \<not> EqualFold n (Name p))"
  by (induction fwp) auto

lemma findPortionRatio_default:
  "fwp \<noteq> [] \<Longrightarrow> \<forall>p \<in> set fwp. \<not> EqualFold n (Name p) \<Longrightarrow>
   findPortionRatio n fwp = Inr (100 div int (length fwp))"
  using portionLoop_None [of n fwp] by (simp add: findPortionRatio_def)

lemma findPortionRatio_Inr: "fwp \<noteq> [] \<Longrightarrow> \<exists>r. findPortionRatio n fwp = Inr r"
  by (simp add: findPortionRatio_def split: option.splits)

lemma adjustServingsByPortionRatio_total:
  "fwp \<noteq> [] \<Longrightarrow>
   \<exists>out. adjustServingsByPortionRatio foods fwp T = Inr out \<and> length out = length foods"
proof (induction foods)
  case Nil
  then show ?case by simp
next
  case (Cons f fs)
  then obtain out where o: "adjustServingsByPortionRatio fs fwp T = Inr out"
    "length out = length fs" by auto
  from Cons.prems obtain r where r: "findPortionRatio (FoodName f) fwp = Inr r"
    using findPortionRatio_Inr by blast
  show ?case using o r by (simp add: Let_def)
qed

lemma adjustServingsByPortionRatio_nth:
  "adjustServingsByPortionRatio foods fwp T = Inr out \<Longrightarrow> i < length foods \<Longrightarrow>
   Servings (foods ! i) = s0 # others \<Longrightarrow>
   findPortionRatio (FoodName (foods ! i)) fwp = Inr r \<Longrightarrow>
   out ! i =
     (foods ! i)\<lparr>Servings := adjustServingForTargetCalories s0 (T * of_int r / 100) # others\<rparr>"
proof (induction foods arbitrary: out i)
  case Nil
  then show ?case by simp
next
  case (Cons f fs)
  show ?case
  proof (cases i)
    case 0
    with Cons.prems show ?thesis
      by (auto simp add: Let_def split: sum.splits if_splits)
  next
    case (Suc j)
    with Cons.prems obtain out' where
      o: "adjustServingsByPortionRatio fs fwp T = Inr out'" "out = (out ! 0) # out'"
      by (auto simp add: Let_def split: sum.splits if_splits)
    with Cons.IH [of out' j] Cons.prems Suc show ?thesis
      by (metis Suc_less_eq length_Cons nth_Cons_Suc)
  qed
qed

text \<open>
  Claim C8 as stated, with the quotient \<open>100 / count\<close> taken as a fraction, fails. The
  meal has three requested foods and the resolved food name matches none of them. The
  code's ratio is the integer 33, so the food's share of a 300 calorie meal is 99 calories
  and the serving's calories become \<^verbatim>\<open>99.000\<close>; the claim's formula gives 100
  calories, which would make them \<^verbatim>\<open>100.000\<close>.
\<close>

theorem default_ratio_fraction_counterexample:
  "portionLoop ''Tofu, firm'' threeRequests = None
   \<and> findPortionRatio ''Tofu, firm'' threeRequests = Inr 33
   \<and> (300 * of_int 33) / 100 \<noteq> 300 * (100 / of_nat (length threeRequests)) / (100 :: rat)
   \<and> adjustServingsByPortionRatio [tofuFood] threeRequests 300
       = Inr [tofuFood\<lparr>Servings := [adjustServingForTargetCalories gram100 99]\<rparr>]
   \<and> Calories (adjustServingForTargetCalories gram100 99) = ''99.000''
   \<and> Calories (adjustServingForTargetCalories gram100
         (300 * (100 / of_nat (length threeRequests)) / 100)) = ''100.000''"
  by code_simp

text \<open>
  Claim C8, amended. For a non-empty list of portioned food requests the scaler does not
  panic and returns one food per input food; for every food with a serving whose name
  equals no requested name under case folding, the ratio is the integer quotient of 100 by
  the number of requests (rounded down), and the first serving is adjusted to the target
  \<open>meal target \<times> ratio / 100\<close>.
\<close>

theorem default_ratio_is_integer_quotient:
  "fwp \<noteq> [] \<Longrightarrow>
   \<exists>out. adjustServingsByPortionRatio foods fwp T = Inr out \<and> length out = length foods \<and>
     (\<forall>i s0 others. i < length foods \<and> Servings (foods ! i) = s0 # others
        \<and> (\<forall>p \<in> set fwp. \<not> EqualFold (FoodName (foods ! i)) (Name p)) \<longrightarrow>
        findPortionRatio (FoodName (foods ! i)) fwp = Inr (100 div int (length fwp))
        \<and> out ! i = (foods ! i)\<lparr>Servings :=
             adjustServingForTargetCalories s0
               (T * of_int (100 div int (length fwp)) / 100) # others\<rparr>)"
proof -
  assume ne: "fwp \<noteq> []"
  then obtain out where
    o: "adjustServingsByPortionRatio foods fwp T = Inr out" "length out = length foods"
    using adjustServingsByPortionRatio_total by blast
  show ?thesis
    using o ne by (auto simp add: findPortionRatio_default adjustServingsByPortionRatio_nth)
qed

theorem default_ratio_is_integer_quotient_witness:
  "threeRequests \<noteq> [] \<and> Servings ([tofuFood] ! 0) = [gram100]
   \<and> portionLoop (FoodName ([tofuFood] ! 0)) threeRequests = None
   \<and> (\<exists>out. adjustServingsByPortionRatio [tofuFood] threeRequests 300 = Inr out
        \<and> out ! 0 = tofuFood\<lparr>Servings :=
             [adjustServingForTargetCalories gram100 (300 * of_int (100 div 3) / 100)]\<rparr>)"
proof -
  have h1: "threeRequests \<noteq> []" by code_simp
  have h2: "Servings ([tofuFood] ! 0) = [gram100]" by code_simp
  have h3: "\<forall>p \<in> set threeRequests. \<not> EqualFold (FoodName ([tofuFood] ! 0)) (Name p)"
    by code_simp
  have l: "int (length threeRequests) = 3" by code_simp
  from default_ratio_is_integer_quotient [OF h1, of "[tofuFood]" 300] obtain out where
    o: "adjustServingsByPortionRatio [tofuFood] threeRequests 300 = Inr out"
    and a: "\<And>i s0 others. i < length [tofuFood] \<and> Servings ([tofuFood] ! i) = s0 # others
        \<and> (\<forall>p \<in> set threeRequests. \<not> EqualFold (FoodName ([tofuFood] ! i)) (Name p)) \<Longrightarrow>
        out ! i = ([tofuFood] ! i)\<lparr>Servings :=
             adjustServingForTargetCalories s0
               (300 * of_int (100 div int (length threeRequests)) / 100) # others\<rparr>"
    by blast
  have "out ! 0 = ([tofuFood] ! 0)\<lparr>Servings :=
          adjustServingForTargetCalories gram100
            (300 * of_int (100 div int (length threeRequests)) / 100) # []\<rparr>"
    using a [of 0 gram100 "[]"] h2 h3 by simp
  moreover have "portionLoop (FoodName ([tofuFood] ! 0)) threeRequests = None"
    by code_simp
  ultimately show ?thesis using h1 h2 o l by simp
qed

section \<open>Macro Rebalancer: frame and fat correction\<close>

lemma rebalanceMealFoods_two_passes:
  "rebalanceMealFoods foods target = rebalancePass (rebalancePass foods target) target"
  by (simp add: rebalanceMealFoods_def)

lemma descriptiveEq_refl: "descriptiveEq s s"
  by (simp add: descriptiveEq_def)

lemma descriptiveEq_trans: "descriptiveEq a b \<Longrightarrow> descriptiveEq b c \<Longrightarrow> descriptiveEq a c"
  by (simp add: descriptiveEq_def)

lemma scaleServing_descriptive: "descriptiveEq s (scaleServing s k)"
  by (simp add: descriptiveEq_def scaleServing_def)

lemma foodFrame_refl: "foodFrame f f"
  by (simp add: foodFrame_def descriptiveEq_refl split: list.splits)

lemma foodFrame_trans: "foodFrame a b \<Longrightarrow> foodFrame b c \<Longrightarrow> foodFrame a c"
  by (auto simp add: foodFrame_def split: list.splits intro: descriptiveEq_trans)

lemma scaleFirstServing_frame: "foodFrame f (scaleFirstServing f k)"
  by (cases "Servings f") (simp_all add: foodFrame_def scaleFirstServing_def scaleServing_descriptive)

lemma frames_refl: "list_all2 foodFrame xs xs"
  by (simp add: list_all2_refl foodFrame_refl)

lemma frames_trans: "list_all2 foodFrame xs ys \<Longrightarrow> list_all2 foodFrame ys zs \<Longrightarrow> list_all2 foodFrame xs zs"
  using list_all2_trans[of foodFrame foodFrame foodFrame xs ys zs] foodFrame_trans by blast

lemma frames_update: "list_all2 foodFrame xs (xs[i := scaleFirstServing (xs ! i) k])"
proof (cases "i < length xs")
  case True
  then show ?thesis
    by (auto simp add: list_all2_conv_all_nth nth_list_update foodFrame_refl scaleFirstServing_frame)
next
  case False
  then have "xs[i := scaleFirstServing (xs ! i) k] = xs"
    by (metis list_update_beyond not_less)
  then show ?thesis by (simp add: list_all2_refl foodFrame_refl)
qed

lemma scaleLoop_frames: "list_all2 foodFrame xs (scaleLoop xs k idxs)"
proof (induction idxs arbitrary: xs)
  case Nil
  then show ?case by (simp add: frames_refl)
next
  case (Cons i idxs)
  show ?case
    using frames_trans[OF frames_update[of xs i k] Cons.IH[of "xs[i := scaleFirstServing (xs ! i) k]"]]
      Cons.IH[of xs]
    by simp
qed

lemma fatCorrection_frames: "list_all2 foodFrame xs (fatCorrection xs t tot)"
  by (simp add: fatCorrection_def Let_def frames_refl frames_update)

lemma carbCorrection_frames: "list_all2 foodFrame xs (carbCorrection xs t tot)"
  by (simp add: carbCorrection_def Let_def frames_refl scaleLoop_frames)

lemma rebalancePass_frames: "list_all2 foodFrame xs (rebalancePass xs t)"
  unfolding rebalancePass_def Let_def
  by (rule frames_trans[OF fatCorrection_frames carbCorrection_frames])

text \<open>
  Claim C10. The list returned by \<^verbatim>\<open>rebalanceMealFoods\<close> has the length and
  the order of the input; every food keeps its identifier, name, type and brand, the
  servings after the first, and the five descriptive fields of the first serving
  (identifier, description, measurement description, metric unit, number of units). Only
  the metric amount and the nutrient fields of a first serving can differ.
\<close>

theorem rebalanceMealFoods_frame: "list_all2 foodFrame foods (rebalanceMealFoods foods target)"
  unfolding rebalanceMealFoods_two_passes
  by (rule frames_trans[OF rebalancePass_frames rebalancePass_frames])

lemma firstIndexFrom_firstMatch:
  "firstIndexFrom p i foods = (case firstMatch p foods of None \<Rightarrow> - 1 | Some k \<Rightarrow> i + int k)"
  by (induction foods arbitrary: i) (auto split: option.splits)

lemma firstMatch_Some:
  "firstMatch p foods = Some k \<longleftrightarrow>
     (k < length foods \<and> p (FoodName (foods ! k)) \<and> (\<forall>j < k. \<not> p (FoodName (foods ! j))))"
proof (induction foods arbitrary: k)
  case Nil
  then show ?case by simp
next
  case (Cons f fs)
  show ?case
  proof (cases "p (FoodName f)")
    case True
    then show ?thesis by (cases k) auto
  next
    case False
    show ?thesis
    proof (cases k)
      case 0
      with False show ?thesis by auto
    next
      case (Suc m)
      have "(\<forall>j < Suc m. \<not> p (FoodName ((f # fs) ! j))) \<longleftrightarrow> (\<forall>j < m. \<not> p (FoodName (fs ! j)))"
        using False by (auto simp add: less_Suc_eq_0_disj)
      with False Suc Cons.IH[of m] show ?thesis by auto
    qed
  qed
qed

lemma findBestFatFoodIndex_fatTargetIndex:
  "findBestFatFoodIndex foods = (case fatTargetIndex foods of None \<Rightarrow> - 1 | Some k \<Rightarrow> int k)"
  by (auto simp add: findBestFatFoodIndex_def fatTargetIndex_def firstIndexFrom_firstMatch Let_def split: option.splits)

lemma fatTargetIndex_range: "fatTargetIndex foods = Some k \<Longrightarrow> k < length foods"
  by (auto simp add: fatTargetIndex_def firstMatch_Some split: option.splits)

lemma findBestFatFoodIndex_range:
  "findBestFatFoodIndex foods = - 1
   \<or> (0 \<le> findBestFatFoodIndex foods \<and> nat (findBestFatFoodIndex foods) < length foods)"
  using fatTargetIndex_range [of foods]
  by (auto simp add: findBestFatFoodIndex_fatTargetIndex split: option.splits)

lemma fatCorrection_unfold:
  "fatCorrection foods target totals =
      (if mtFats totals < mtFats target * (95 / 100) then
         (case fatTargetIndex foods of
            None \<Rightarrow> foods
          | Some i \<Rightarrow>
              (case Servings (foods ! i) of
                 [] \<Rightarrow> foods
               | s # others \<Rightarrow>
                   if parseFloatDefault (Fat s) > 0 then
                     foods[i := (foods ! i)\<lparr>Servings :=
                        scaleServing s
                          (1 + min (6 / 10)
                                 ((mtFats target * (95 / 100) - mtFats totals)
                                    / parseFloatDefault (Fat s) * (8 / 10))) # others\<rparr>]
                   else foods))
       else foods)"
proof -
  have t: "1 - tolerance = 95 / 100" by (simp add: tolerance_def)
  have m: "\<And>a b. minFloat a b = min a b" by (auto simp add: minFloat_def min_def)
  show ?thesis
    by (auto simp add: fatCorrection_def Let_def t m findBestFatFoodIndex_fatTargetIndex
        scaleFirstServing_def split: option.splits list.splits)
qed

lemma rebalancePass_unfold:
  "rebalancePass foods target =
     carbCorrection (fatCorrection foods target (calculateMealMacros foods)) target
       (calculateMealMacros foods)"
  by (simp add: rebalancePass_def Let_def)

section \<open>Formatting and parsing: the round trip\<close>

lemma isDigit_not_special:
  "isDigit c \<Longrightarrow> c \<noteq> CHR ''.'' \<and> c \<noteq> CHR ''+'' \<and> c \<noteq> CHR ''-''"
  by (auto simp add: isDigit_def)

lemma not_isDigit_point: "\<not> isDigit (CHR ''.'')"
  by (simp add: isDigit_def)

lemma digitChar: "0 \<le> d \<Longrightarrow> d < 10 \<Longrightarrow>
   isDigit (char_of (48 + d)) \<and> of_char (char_of (48 + d :: int)) = 48 + d"
  by (simp add: isDigit_def)

lemma roundHalfEven_near: "\<bar>of_int (roundHalfEven q) - q\<bar> \<le> 1 / 2"
proof -
  have "of_int \<lfloor>q\<rfloor> \<le> q" "q < of_int \<lfloor>q\<rfloor> + 1" by linarith+
  then show ?thesis
    by (auto simp add: roundHalfEven_def Let_def)
qed

lemma roundHalfEven_nonneg: "0 \<le> q \<Longrightarrow> 0 \<le> roundHalfEven q"
  by (auto simp add: roundHalfEven_def Let_def)

lemma digitsValue_append: "digitsValue a (xs @ ys) = digitsValue (digitsValue a xs) ys"
  by (induction xs arbitrary: a) auto

lemma showInt_props:
  "0 \<le> n \<Longrightarrow> showInt n \<noteq> [] \<and> list_all isDigit (showInt n)
     \<and> (\<forall>a. digitsValue a (showInt n) = a * 10 ^ length (showInt n) + n)"
proof (induction n rule: showInt.induct)
  case (1 n)
  show ?case
  proof (cases "n < 10")
    case True
    then have e: "showInt n = [char_of (48 + n)]"
      by (subst showInt.simps) simp
    show ?thesis unfolding e using digitChar[OF "1.prems" True] by simp
  next
    case False
    then have ih: "showInt (n div 10) \<noteq> [] \<and> list_all isDigit (showInt (n div 10))
        \<and> (\<forall>a. digitsValue a (showInt (n div 10)) = a * 10 ^ length (showInt (n div 10)) + n div 10)"
      using "1.IH" "1.prems" by simp
    have d: "0 \<le> n mod 10" "n mod 10 < 10" by simp_all
    have e: "showInt n = showInt (n div 10) @ [char_of (48 + n mod 10)]"
      using False by (subst showInt.simps) simp
    show ?thesis
      unfolding e using ih digitChar[OF d]
      by (simp add: digitsValue_append algebra_simps)
  qed
qed

lemma pad3_decompose: "(k::int) = (k div 100) * 100 + (k div 10 mod 10) * 10 + k mod 10"
proof -
  have a: "k = 10 * (k div 10) + k mod 10" by simp
  have b: "k div 10 = 10 * (k div 10 div 10) + k div 10 mod 10" by simp
  have c: "k div 10 div 10 = k div 100"
    using zdiv_zmult2_eq [of 10 k 10] by simp
  show ?thesis using a b c by linarith
qed

lemma pad3_props:
  "0 \<le> k \<Longrightarrow> k < 1000 \<Longrightarrow>
   list_all isDigit (pad3 k) \<and> length (pad3 k) = 3 \<and> digitsValue a (pad3 k) = a * 1000 + k"
proof -
  assume k: "0 \<le> k" "k < 1000"
  have d1: "0 \<le> k div 100" "k div 100 < 10" using k by auto
  have d2: "0 \<le> k div 10 mod 10" "k div 10 mod 10 < 10" by simp_all
  have d3: "0 \<le> k mod 10" "k mod 10 < 10" by simp_all
  have v: "digitsValue a (pad3 k) = 10 * (10 * (10 * a + k div 100) + k div 10 mod 10) + k mod 10"
    using digitChar[OF d1] digitChar[OF d2] digitChar[OF d3]
    by (simp add: pad3_def)
  have "list_all isDigit (pad3 k)"
    using digitChar[OF d1] digitChar[OF d2] digitChar[OF d3] by (simp add: pad3_def)
  moreover have "length (pad3 k) = 3" by (simp add: pad3_def)
  moreover have "digitsValue a (pad3 k) = a * 1000 + k"
  proof -
    define h t u where "h = k div 100" and "t = k div 10 mod 10" and "u = k mod 10"
    have "digitsValue a (pad3 k) = 10 * (10 * (10 * a + h) + t) + u"
      using v by (simp add: h_def t_def u_def)
    moreover have "k = h * 100 + t * 10 + u"
      using pad3_decompose [of k] by (simp add: h_def t_def u_def)
    ultimately show ?thesis by (simp add: algebra_simps)
  qed
  ultimately show ?thesis by simp
qed

lemma roundHalfEven_nonpos: "q < 0 \<Longrightarrow> roundHalfEven q \<le> 0"
proof -
  assume q: "q < 0"
  then have f: "\<lfloor>q\<rfloor> \<le> - 1" by linarith
  show ?thesis
  proof (cases "\<lfloor>q\<rfloor> = - 1")
    case True
    then show ?thesis using q by (auto simp add: roundHalfEven_def Let_def)
  next
    case False
    with f have "\<lfloor>q\<rfloor> \<le> - 2" by linarith
    then show ?thesis by (auto simp add: roundHalfEven_def Let_def)
  qed
qed

lemma span_digits:
  assumes "list_all isDigit ip" "\<not> isDigit y"
  shows "takeWhile isDigit (ip @ y # ys) = ip" "dropWhile isDigit (ip @ y # ys) = y # ys"
  using assms by (induction ip) auto

lemma span_all_digits:
  assumes "list_all isDigit fp"
  shows "takeWhile isDigit fp = fp" "dropWhile isDigit fp = []"
  using assms by (induction fp) auto

lemma readSign_digit: "isDigit c \<Longrightarrow> readSign (c # cs) = (False, c # cs)"
  using isDigit_not_special [of c] by (simp add: readSign_def)

lemma readSign_minus: "readSign (CHR ''-'' # cs) = (True, cs)"
  by (simp add: readSign_def)

lemma ParseFloat_unsigned:
  assumes "ip \<noteq> []" "list_all isDigit ip" "list_all isDigit fp"
  shows "ParseFloat (ip @ CHR ''.'' # fp) = Some (of_int (digitsValue 0 (ip @ fp)) / 10 ^ length fp)"
proof -
  from assms obtain c cs where ip: "ip = c # cs" "isDigit c" by (cases ip) auto
  have rs: "readSign (ip @ CHR ''.'' # fp) = (False, ip @ CHR ''.'' # fp)"
    using ip readSign_digit [of c "cs @ CHR ''.'' # fp"] by simp
  show ?thesis
    unfolding ParseFloat_def rs
    using assms(1)
    by (simp add: span_digits [OF assms(2) not_isDigit_point] span_all_digits [OF assms(3)]
        readExponent_def pow10_def)
qed

lemma ParseFloat_negative:
  assumes "ip \<noteq> []" "list_all isDigit ip" "list_all isDigit fp"
  shows "ParseFloat (CHR ''-'' # ip @ CHR ''.'' # fp)
           = Some (- (of_int (digitsValue 0 (ip @ fp)) / 10 ^ length fp))"
  unfolding ParseFloat_def readSign_minus
  using assms(1)
  by (simp add: span_digits [OF assms(2) not_isDigit_point] span_all_digits [OF assms(3)]
      readExponent_def pow10_def)

lemma ParseFloat_Sprintf3: "ParseFloat (Sprintf3 x) = Some (round3 x)"
proof -
  define r where "r = roundHalfEven (x * 1000)"
  define a where "a = \<bar>r\<bar>"
  define ip where "ip = showInt (a div 1000)"
  define fp where "fp = pad3 (a mod 1000)"
  have a0: "0 \<le> a" by (simp add: a_def)
  then have q0: "0 \<le> a div 1000" by simp
  have ipP: "ip \<noteq> []" "list_all isDigit ip" "digitsValue 0 ip = a div 1000"
    using showInt_props [OF q0] by (simp_all add: ip_def)
  have m: "0 \<le> a mod 1000" "a mod 1000 < 1000" by simp_all
  have fpP: "list_all isDigit fp" "length fp = 3"
    "digitsValue (a div 1000) fp = (a div 1000) * 1000 + a mod 1000"
    using pad3_props [OF m] by (simp_all add: fp_def)
  have v: "digitsValue 0 (ip @ fp) = a"
    using ipP(3) fpP(3) by (simp add: digitsValue_append)
  show ?thesis
  proof (cases "x < 0")
    case True
    then have "r \<le> 0" using roundHalfEven_nonpos [of "x * 1000"] by (simp add: r_def)
    then have ar: "of_int a = - (of_int r :: rat)" by (simp add: a_def)
    have "Sprintf3 x = CHR ''-'' # ip @ CHR ''.'' # fp"
      using True by (simp add: Sprintf3_def Let_def r_def a_def ip_def fp_def)
    then show ?thesis
      using ParseFloat_negative [OF ipP(1) ipP(2) fpP(1)] v fpP(2) ar
      by (simp add: round3_def r_def)
  next
    case False
    then have "0 \<le> r" using roundHalfEven_nonneg [of "x * 1000"] by (simp add: r_def)
    then have ar: "of_int a = (of_int r :: rat)" by (simp add: a_def)
    have "Sprintf3 x = ip @ CHR ''.'' # fp"
      using False by (simp add: Sprintf3_def Let_def r_def a_def ip_def fp_def)
    then show ?thesis
      using ParseFloat_unsigned [OF ipP(1) ipP(2) fpP(1)] v fpP(2) ar
      by (simp add: round3_def r_def)
  qed
qed

lemma round3_near: "\<bar>round3 x - x\<bar> \<le> 1 / 2000"
proof -
  have "\<bar>of_int (roundHalfEven (x * 1000)) - x * 1000\<bar> \<le> 1 / 2"
    by (rule roundHalfEven_near)
  then show ?thesis by (simp add: round3_def field_simps abs_le_iff)
qed

section \<open>Scaling a serving forth and back\<close>

lemma parseFloatDefault_Sprintf3: "parseFloatDefault (Sprintf3 x) = round3 x"
  by (simp add: parseFloatDefault_def ParseFloat_Sprintf3)

lemma scaleServing_field:
  "0 < k \<Longrightarrow> F \<in> set numericFields \<Longrightarrow>
   parseFloatDefault (F (scaleServing s k)) = round3 (parseFloatDefault (F s) * k)"
  by (auto simp add: numericFields_def scaleServing_def parseFloatDefault_Sprintf3)

lemma round_trip_bound:
  assumes "0 < m"
  shows "\<bar>round3 (round3 (v * m) * (1 / m)) - v\<bar> \<le> (1 + 1 / m) / 2000"
proof -
  define y where "y = round3 (v * m)"
  have a: "\<bar>round3 (y * (1 / m)) - y * (1 / m)\<bar> \<le> 1 / 2000" by (rule round3_near)
  have b: "\<bar>y - v * m\<bar> \<le> 1 / 2000" unfolding y_def by (rule round3_near)
  have "y * (1 / m) - v = (y - v * m) / m" using assms by (simp add: field_simps)
  then have "\<bar>y * (1 / m) - v\<bar> = \<bar>y - v * m\<bar> / m" using assms by (simp add: abs_divide)
  also have "\<dots> \<le> (1 / 2000) / m"
    using divide_right_mono [OF b, of m] assms by simp
  finally have c: "\<bar>y * (1 / m) - v\<bar> \<le> (1 / m) / 2000" by simp
  have "\<bar>round3 (y * (1 / m)) - v\<bar> \<le> \<bar>round3 (y * (1 / m)) - y * (1 / m)\<bar> + \<bar>y * (1 / m) - v\<bar>"
    by linarith
  with a c have "\<bar>round3 (y * (1 / m)) - v\<bar> \<le> 1 / 2000 + (1 / m) / 2000" by linarith
  then show ?thesis unfolding y_def by (simp add: add_divide_distrib)
qed

text \<open>
  Claim C6 as stated fails, at a factor the rebalancer itself uses: \<open>0.65\<close> is the
  factor of a carb trim at its cap (\<open>1 - 0.35\<close>), and its inverse \<open>1 / 0.65\<close> is
  below the largest factor \<open>1.6\<close> of a fat correction. A serving with 0.001 of iron
  scaled by \<open>0.65\<close> has \<open>0.00065\<close>, printed as \<^verbatim>\<open>0.001\<close>; scaled back it has
  \<open>0.0015\<dots>\<close>, printed as \<^verbatim>\<open>0.002\<close>: twice the original, a whole unit of the
  third decimal away and not the half unit of a rounding. A field with the value
  \<open>0.00077\<close> comes back as \<^verbatim>\<open>0.002\<close> too, \<open>0.00123\<close> away, more than a
  whole unit.
\<close>

theorem scale_round_trip_counterexample:
  "Iron traceServing = ''0.001''
   \<and> Iron (scaleServing traceServing (13 / 20)) = ''0.001''
   \<and> Iron (scaleServing (scaleServing traceServing (13 / 20)) (1 / (13 / 20))) = ''0.002''
   \<and> VitaminD traceServing = ''0.00077''
   \<and> VitaminD (scaleServing traceServing (13 / 20)) = ''0.001''
   \<and> VitaminD (scaleServing (scaleServing traceServing (13 / 20)) (1 / (13 / 20))) = ''0.002''
   \<and> \<bar>parseFloatDefault
         (VitaminD (scaleServing (scaleServing traceServing (13 / 20)) (1 / (13 / 20))))
       - parseFloatDefault (VitaminD traceServing)\<bar> = 123 / 100000"
  by code_simp

text \<open>
  Claim C6, amended. Let the factor \<open>m\<close> be such that \<open>m\<close> and \<open>1 / m\<close> are
  both factors the rebalancer can pass, that is \<open>0.65 \<le> m \<le> 1 / 0.65\<close>, and let a
  field among the amount and the nutrient fields be a plain decimal of magnitude at most
  \<open>10\<^sup>9\<close>. Then after scaling by \<open>m\<close> and by \<open>1 / m\<close> the field is within
  \<open>0.002\<close>, two units of the third decimal, of its value before. In exact arithmetic the
  distance is at most \<open>0.0005 \<times> (1 + 1 / m)\<close> (lemma \<open>round_trip_bound\<close>), below
  \<open>0.0013\<close> on this range; the rest of the bound is room for the binary rounding of the
  \<^verbatim>\<open>float64\<close> products, which on values of this magnitude stays below a
  millionth. The numbers of the model are exact rationals.
\<close>

theorem scale_round_trip_within_two_units:
  assumes lo: "13 / 20 \<le> m" and hi: "m \<le> 20 / 13"
    and F: "F \<in> set numericFields"
    and v: "ParseFloat (F s) = Some v" and mag: "\<bar>v\<bar> \<le> 10 ^ 9"
  shows "\<bar>parseFloatDefault (F (scaleServing (scaleServing s m) (1 / m))) - v\<bar> \<le> 2 / 1000"
proof -
  have m: "0 < m" using lo by simp
  have im: "0 < 1 / m" using m by simp
  have pv: "parseFloatDefault (F s) = v" using v by (simp add: parseFloatDefault_def)
  have e: "parseFloatDefault (F (scaleServing (scaleServing s m) (1 / m)))
      = round3 (round3 (v * m) * (1 / m))"
    using scaleServing_field [OF im F] scaleServing_field [OF m F] pv by simp
  have b: "\<bar>round3 (round3 (v * m) * (1 / m)) - v\<bar> \<le> (1 + 1 / m) / 2000"
    by (rule round_trip_bound [OF m])
  have "1 / m \<le> 1 / (13 / 20)" using lo by (intro divide_left_mono) simp_all
  then have "(1 + 1 / m) / 2000 \<le> 2 / 1000" by simp
  with b show ?thesis unfolding e by linarith
qed

theorem scale_round_trip_within_two_units_witness:
  "(13 / 20 :: rat) \<le> 13 / 20 \<and> (13 / 20 :: rat) \<le> 20 / 13
   \<and> Iron \<in> set numericFields
   \<and> ParseFloat (Iron traceServing) = Some (1 / 1000)
   \<and> \<bar>1 / 1000 :: rat\<bar> \<le> 10 ^ 9
   \<and> \<bar>parseFloatDefault (Iron (scaleServing (scaleServing traceServing (13 / 20)) (1 / (13 / 20))))
        - 1 / 1000\<bar> \<le> 2 / 1000"
proof -
  have lo: "(13 / 20 :: rat) \<le> 13 / 20" and hi: "(13 / 20 :: rat) \<le> 20 / 13" by simp_all
  have F: "Iron \<in> set numericFields" by (simp add: numericFields_def)
  have v: "ParseFloat (Iron traceServing) = Some (1 / 1000)" by code_simp
  have mag: "\<bar>1 / 1000 :: rat\<bar> \<le> 10 ^ 9" by simp
  show ?thesis
    using scale_round_trip_within_two_units [OF lo hi F v mag] lo hi F v mag by simp
qed

section \<open>Macro Rebalancer: deviation from the target\<close>

lemma addParsed_eq: "addParsed a s = a + parseFloatDefault s"
  by (simp add: addParsed_def parseFloatDefault_def split: option.splits)

lemma macrosLoop_sums:
  "mtFats (macrosLoop tot foods) = mtFats tot + sum_list (map firstFat foods)
   \<and> mtCarbs (macrosLoop tot foods) = mtCarbs tot + sum_list (map firstCarbs foods)"
proof (induction foods arbitrary: tot)
  case Nil
  then show ?case by simp
next
  case (Cons f fs)
  show ?case
  proof (cases "Servings f")
    case Nil
    then show ?thesis using Cons.IH [of tot] by (simp add: firstFat_def firstCarbs_def)
  next
    case (Cons s others)
    then show ?thesis
      by (simp add: Cons.IH firstFat_def firstCarbs_def addParsed_eq)
  qed
qed

lemma aggregated_fat: "mtFats (calculateMealMacros foods) = sum_list (map firstFat foods)"
  by (simp add: calculateMealMacros_def macrosLoop_sums)

lemma aggregated_carbs: "mtCarbs (calculateMealMacros foods) = sum_list (map firstCarbs foods)"
  by (simp add: calculateMealMacros_def macrosLoop_sums)

lemma sum_list_map_update:
  fixes g :: "'a \<Rightarrow> rat"
  shows "i < length xs \<Longrightarrow>
    sum_list (map g (xs[i := y])) = sum_list (map g xs) - g (xs ! i) + g y"
proof (induction xs arbitrary: i)
  case Nil
  then show ?case by simp
next
  case (Cons x xs)
  then show ?case by (cases i) auto
qed

lemma round3_zero: "round3 0 = 0"
  by (simp add: round3_def roundHalfEven_def)

lemma firstFat_scaled: "0 < k \<Longrightarrow> firstFat (scaleFirstServing f k) = round3 (firstFat f * k)"
  by (cases "Servings f")
    (simp_all add: firstFat_def scaleFirstServing_def scaleServing_def round3_zero
      parseFloatDefault_Sprintf3)

lemma firstCarbs_scaled: "0 < k \<Longrightarrow> firstCarbs (scaleFirstServing f k) = round3 (firstCarbs f * k)"
  by (cases "Servings f")
    (simp_all add: firstCarbs_def scaleFirstServing_def scaleServing_def round3_zero
      parseFloatDefault_Sprintf3)

lemma fat_step_arith:
  fixes T t g T' :: rat
  assumes "0 \<le> t" "T < t * (95 / 100)" "0 \<le> g" "g \<le> (t * (95 / 100) - T) * (8 / 10)"
    "\<bar>T' - (T + g)\<bar> \<le> 1 / 2000"
  shows "\<bar>T' - t\<bar> \<le> \<bar>T - t\<bar> + 1 / 2000"
proof -
  have d: "g * 100 \<le> t * 76 - T * 80" using assms(4) by (simp add: algebra_simps)
  have e: "T * 100 < t * 95" using assms(2) by simp
  show ?thesis using assms(1,3,5) d e by linarith
qed

lemma near_shift:
  fixes r f g T :: rat
  shows "\<bar>r - (f + g)\<bar> \<le> 1 / 2000 \<Longrightarrow> \<bar>(T - f + r) - (T + g)\<bar> \<le> 1 / 2000"
  by linarith

lemma fatCorrection_cases:
  "fatCorrection foods target totals = foods
   \<or> (\<exists>i s others. mtFats totals < mtFats target * (95 / 100)
         \<and> fatTargetIndex foods = Some i \<and> Servings (foods ! i) = s # others
         \<and> 0 < parseFloatDefault (Fat s)
         \<and> fatCorrection foods target totals
             = foods[i := scaleFirstServing (foods ! i)
                 (1 + min (6 / 10)
                    ((mtFats target * (95 / 100) - mtFats totals)
                       / parseFloatDefault (Fat s) * (8 / 10)))])"
proof (cases "mtFats totals < mtFats target * (95 / 100)")
  case False
  then show ?thesis by (simp only: fatCorrection_unfold if_False simp_thms)
next
  case low: True
  show ?thesis
  proof (cases "fatTargetIndex foods")
    case None
    then show ?thesis using low by (simp only: fatCorrection_unfold if_True option.case simp_thms)
  next
    case (Some i)
    show ?thesis
    proof (cases "Servings (foods ! i)")
      case Nil
      then show ?thesis
        using low Some by (simp only: fatCorrection_unfold if_True option.case list.case simp_thms)
    next
      case (Cons s others)
      show ?thesis
      proof (cases "0 < parseFloatDefault (Fat s)")
        case False
        then show ?thesis
          using low Some Cons
          by (simp only: fatCorrection_unfold if_True if_False option.case list.case simp_thms)
      next
        case True
        have "fatCorrection foods target totals
             = foods[i := (foods ! i)\<lparr>Servings :=
                        scaleServing s
                          (1 + min (6 / 10)
                                 ((mtFats target * (95 / 100) - mtFats totals)
                                    / parseFloatDefault (Fat s) * (8 / 10))) # others\<rparr>]"
          using low Some Cons True
          by (simp only: fatCorrection_unfold if_True option.case list.case simp_thms)
        moreover have "\<And>k. (foods ! i)\<lparr>Servings := scaleServing s k # others\<rparr>
            = scaleFirstServing (foods ! i) k"
          using Cons by (simp add: scaleFirstServing_def)
        ultimately show ?thesis using low Some Cons True by auto
      qed
    qed
  qed
qed

lemma fatCorrection_deviation:
  assumes t: "0 \<le> mtFats target"
  shows "\<bar>mtFats (calculateMealMacros (fatCorrection foods target (calculateMealMacros foods)))
            - mtFats target\<bar>
         \<le> \<bar>mtFats (calculateMealMacros foods) - mtFats target\<bar> + 1 / 2000"
proof -
  define T where "T = mtFats (calculateMealMacros foods)"
  define tf where "tf = mtFats target"
  consider (same) "fatCorrection foods target (calculateMealMacros foods) = foods"
    | (scaled) i s others where "mtFats (calculateMealMacros foods) < mtFats target * (95 / 100)"
        "fatTargetIndex foods = Some i" "Servings (foods ! i) = s # others"
        "parseFloatDefault (Fat s) > 0"
        "fatCorrection foods target (calculateMealMacros foods)
           = foods[i := scaleFirstServing (foods ! i)
                 (1 + min (6 / 10)
                    ((mtFats target * (95 / 100) - mtFats (calculateMealMacros foods))
                       / parseFloatDefault (Fat s) * (8 / 10)))]"
    using fatCorrection_cases [of foods target "calculateMealMacros foods"] by blast
  then show ?thesis
  proof cases
    case same
    then show ?thesis by simp
  next
    case scaled
    define f where "f = parseFloatDefault (Fat s)"
    define needed where "needed = tf * (95 / 100) - T"
    define k where "k = 1 + min (6 / 10) (needed / f * (8 / 10))"
    have fpos: "0 < f" using scaled(4) by (simp add: f_def)
    have npos: "0 < needed" using scaled(1) by (simp add: needed_def T_def tf_def)
    have i: "i < length foods" using fatTargetIndex_range [OF scaled(2)] .
    have ff: "firstFat (foods ! i) = f" using scaled(3) by (simp add: firstFat_def f_def)
    have mpos: "0 < min (6 / 10) (needed / f * (8 / 10))" using fpos npos by simp
    then have kpos: "0 < k" by (simp add: k_def)
    have new: "fatCorrection foods target (calculateMealMacros foods)
        = foods[i := scaleFirstServing (foods ! i) k]"
      using scaled(5) by (simp add: k_def needed_def T_def tf_def f_def)
    define g where "g = f * min (6 / 10) (needed / f * (8 / 10))"
    have g0: "0 \<le> g" using fpos mpos by (simp add: g_def)
    have "g \<le> f * (needed / f * (8 / 10))"
      unfolding g_def using fpos by (intro mult_left_mono) auto
    then have g1: "g \<le> needed * (8 / 10)" using fpos by simp
    have fk: "f * k = f + g" by (simp add: k_def g_def algebra_simps)
    have T': "mtFats (calculateMealMacros (fatCorrection foods target (calculateMealMacros foods)))
        = T - f + round3 (f + g)"
      unfolding new aggregated_fat
      using sum_list_map_update [OF i, of firstFat] firstFat_scaled [OF kpos, of "foods ! i"] ff fk
      by (simp add: T_def aggregated_fat)
    have "\<bar>round3 (f + g) - (f + g)\<bar> \<le> 1 / 2000" by (rule round3_near)
    then have near: "\<bar>(T - f + round3 (f + g)) - (T + g)\<bar> \<le> 1 / 2000" by (rule near_shift)
    have "\<bar>(T - f + round3 (f + g)) - tf\<bar> \<le> \<bar>T - tf\<bar> + 1 / 2000"
      using fat_step_arith [of tf T g "T - f + round3 (f + g)"] t scaled(1) g0 g1 near
      by (simp add: T_def tf_def needed_def)
    then show ?thesis using T' by (simp add: T_def tf_def)
  qed
qed

lemma starchyFrom_range: "j \<in> set (starchyFrom i foods) \<Longrightarrow> i \<le> j \<and> j < i + length foods"
proof (induction foods arbitrary: i)
  case Nil
  then show ?case by simp
next
  case (Cons f fs)
  then show ?case by (fastforce split: if_splits)
qed

lemma starchyFrom_distinct: "distinct (starchyFrom i foods)"
proof (induction foods arbitrary: i)
  case Nil
  then show ?case by simp
next
  case (Cons f fs)
  have "i \<notin> set (starchyFrom (i + 1) fs)" using starchyFrom_range [of i "i + 1" fs] by auto
  then show ?case using Cons.IH [of "i + 1"] by simp
qed

lemma starchCarbsLoop_sum:
  "starchCarbsLoop foods a idxs = a + sum_list (map (\<lambda>j. firstCarbs (foods ! j)) idxs)"
proof (induction idxs arbitrary: a)
  case Nil
  then show ?case by simp
next
  case (Cons i idxs)
  then show ?case by (cases "Servings (foods ! i)") (simp_all add: firstCarbs_def)
qed

lemma scaleFirstServing_no_servings: "Servings f = [] \<Longrightarrow> scaleFirstServing f k = f"
  by (simp add: scaleFirstServing_def)

lemma scaleLoop_step:
  "scaleLoop foods k (i # idxs) = scaleLoop (foods[i := scaleFirstServing (foods ! i) k]) k idxs"
  by (cases "Servings (foods ! i)") (simp_all add: scaleFirstServing_no_servings)

lemma scaleLoop_carbs:
  assumes "0 < k"
  shows "distinct idxs \<Longrightarrow> \<forall>j \<in> set idxs. j < length foods \<Longrightarrow>
    sum_list (map firstCarbs (scaleLoop foods k idxs))
      = sum_list (map firstCarbs foods)
        + sum_list (map (\<lambda>j. round3 (firstCarbs (foods ! j) * k) - firstCarbs (foods ! j)) idxs)"
proof (induction idxs arbitrary: foods)
  case Nil
  then show ?case by simp
next
  case (Cons i idxs)
  define foods' where "foods' = foods[i := scaleFirstServing (foods ! i) k]"
  have i: "i < length foods" using Cons.prems by simp
  have len: "length foods' = length foods" by (simp add: foods'_def)
  have same: "foods' ! j = foods ! j" if "j \<in> set idxs" for j
  proof -
    from that Cons.prems(1) have "i \<noteq> j" by auto
    then show ?thesis by (simp add: foods'_def)
  qed
  have s1: "sum_list (map firstCarbs foods')
      = sum_list (map firstCarbs foods) - firstCarbs (foods ! i) + round3 (firstCarbs (foods ! i) * k)"
    unfolding foods'_def
    using sum_list_map_update [OF i, of firstCarbs] firstCarbs_scaled [OF assms, of "foods ! i"]
    by simp
  have ih: "sum_list (map firstCarbs (scaleLoop foods' k idxs))
      = sum_list (map firstCarbs foods')
        + sum_list (map (\<lambda>j. round3 (firstCarbs (foods' ! j) * k) - firstCarbs (foods' ! j)) idxs)"
    using Cons.IH [of foods'] Cons.prems len by simp
  have m: "map (\<lambda>j. round3 (firstCarbs (foods' ! j) * k) - firstCarbs (foods' ! j)) idxs
      = map (\<lambda>j. round3 (firstCarbs (foods ! j) * k) - firstCarbs (foods ! j)) idxs"
    using same by (simp cong: map_cong)
  show ?case
    unfolding scaleLoop_step foods'_def [symmetric] ih m s1 by simp
qed

lemma rounding_error_sum:
  "\<bar>sum_list (map (\<lambda>j. round3 (c j * k) - c j * k) idxs)\<bar> \<le> of_nat (length idxs) / 2000"
proof (induction idxs)
  case Nil
  then show ?case by simp
next
  case (Cons i idxs)
  define x where "x = round3 (c i * k) - c i * k"
  define S where "S = sum_list (map (\<lambda>j. round3 (c j * k) - c j * k) idxs)"
  have a: "\<bar>x\<bar> \<le> 1 / 2000" unfolding x_def by (rule round3_near)
  have b: "\<bar>S\<bar> \<le> of_nat (length idxs) / 2000" unfolding S_def by (rule Cons.IH)
  have "\<bar>x + S\<bar> \<le> \<bar>x\<bar> + \<bar>S\<bar>" by (rule abs_triangle_ineq)
  with a b have c: "\<bar>x + S\<bar> \<le> 1 / 2000 + of_nat (length idxs) / 2000" by linarith
  have eq: "of_nat (length (i # idxs)) / 2000 = 1 / 2000 + of_nat (length idxs) / (2000 :: rat)"
    by (simp add: add_divide_distrib)
  have s: "sum_list (map (\<lambda>j. round3 (c j * k) - c j * k) (i # idxs)) = x + S"
    by (simp add: x_def S_def)
  show ?case unfolding eq s by (rule c)
qed

lemma scaled_sum_split:
  fixes c :: "nat \<Rightarrow> rat"
  shows "sum_list (map (\<lambda>j. round3 (c j * k) - c j) idxs)
     = sum_list (map (\<lambda>j. round3 (c j * k) - c j * k) idxs) - (1 - k) * sum_list (map c idxs)"
  by (induction idxs) (simp_all add: algebra_simps)

lemma carb_step_arith:
  fixes T t h T' e :: rat
  assumes "0 \<le> t" "t * (105 / 100) < T" "0 \<le> h" "h \<le> T - t * (105 / 100)"
    "\<bar>T' - (T - h)\<bar> \<le> e"
  shows "\<bar>T' - t\<bar> \<le> \<bar>T - t\<bar> + e"
proof -
  have d: "h * 100 \<le> T * 100 - t * 105" using assms(4) by (simp add: algebra_simps)
  have e: "t * 105 < T * 100" using assms(2) by simp
  show ?thesis using assms(1,3,5) d e by linarith
qed

lemma carbCorrection_cases:
  "carbCorrection foods target totals = foods
   \<or> (mtCarbs target * (105 / 100) < mtCarbs totals
       \<and> 0 < starchCarbsLoop foods 0 (findStarchyCarbIndexes foods)
       \<and> carbCorrection foods target totals
           = scaleLoop foods
               (1 - min (35 / 100)
                      ((mtCarbs totals - mtCarbs target * (105 / 100))
                         / starchCarbsLoop foods 0 (findStarchyCarbIndexes foods)))
               (findStarchyCarbIndexes foods))"
proof -
  have t: "1 + tolerance = 105 / 100" by (simp add: tolerance_def)
  have m: "\<And>a b. minFloat a b = min a b" by (auto simp add: minFloat_def min_def)
  show ?thesis
    unfolding carbCorrection_def Let_def t m by (simp only: simp_thms split: if_splits) auto
qed

lemma findStarchyCarbIndexes_range:
  "j \<in> set (findStarchyCarbIndexes foods) \<Longrightarrow> j < length foods"
  using starchyFrom_range [of j 0 foods] by (simp add: findStarchyCarbIndexes_def)

lemma carbCorrection_deviation:
  assumes t: "0 \<le> mtCarbs target" and tot: "mtCarbs totals = mtCarbs (calculateMealMacros foods)"
  shows "\<bar>mtCarbs (calculateMealMacros (carbCorrection foods target totals)) - mtCarbs target\<bar>
         \<le> \<bar>mtCarbs (calculateMealMacros foods) - mtCarbs target\<bar>
             + of_nat (length (findStarchyCarbIndexes foods)) / 2000"
proof -
  define idxs where "idxs = findStarchyCarbIndexes foods"
  define T where "T = mtCarbs (calculateMealMacros foods)"
  define tc where "tc = mtCarbs target"
  define S where "S = starchCarbsLoop foods 0 idxs"
  define frac where "frac = min (35 / 100) ((T - tc * (105 / 100)) / S)"
  consider (same) "carbCorrection foods target totals = foods"
    | (scaled) "tc * (105 / 100) < T" "0 < S"
        "carbCorrection foods target totals = scaleLoop foods (1 - frac) idxs"
    using carbCorrection_cases [of foods target totals] tot
    by (auto simp add: idxs_def T_def tc_def S_def frac_def)
  then show ?thesis
  proof cases
    case same
    then show ?thesis by simp
  next
    case scaled
    define c where "c = (\<lambda>j. firstCarbs (foods ! j))"
    define k where "k = 1 - frac"
    have ex: "0 < T - tc * (105 / 100)" using scaled(1) by simp
    then have "0 < (T - tc * (105 / 100)) / S" using scaled(2) by simp
    then have fpos: "0 < frac" by (simp add: frac_def)
    have fle: "frac \<le> 35 / 100" unfolding frac_def by (rule min.cobounded1)
    then have kpos: "0 < k" by (simp add: k_def)
    have Ssum: "S = sum_list (map c idxs)"
      by (simp add: S_def c_def starchCarbsLoop_sum)
    define h where "h = frac * S"
    have h0: "0 \<le> h" using fpos scaled(2) by (simp add: h_def)
    have "frac \<le> (T - tc * (105 / 100)) / S" unfolding frac_def by (rule min.cobounded2)
    then have "frac * S \<le> (T - tc * (105 / 100)) / S * S"
      using scaled(2) by (intro mult_right_mono) auto
    then have h1: "h \<le> T - tc * (105 / 100)" using scaled(2) by (simp add: h_def)
    have d: "distinct idxs" by (simp add: idxs_def findStarchyCarbIndexes_def starchyFrom_distinct)
    have r: "\<forall>j \<in> set idxs. j < length foods"
      using findStarchyCarbIndexes_range by (simp add: idxs_def)
    define E where "E = sum_list (map (\<lambda>j. round3 (c j * k) - c j * k) idxs)"
    have Eb: "\<bar>E\<bar> \<le> of_nat (length idxs) / 2000"
      unfolding E_def by (rule rounding_error_sum)
    have "mtCarbs (calculateMealMacros (carbCorrection foods target totals))
        = T + sum_list (map (\<lambda>j. round3 (c j * k) - c j) idxs)"
      unfolding scaled(3) aggregated_carbs k_def [symmetric]
      using scaleLoop_carbs [OF kpos d r] by (simp add: T_def aggregated_carbs c_def)
    also have "\<dots> = T + (E - (1 - k) * S)"
      unfolding E_def Ssum by (simp only: scaled_sum_split)
    also have "\<dots> = T - h + E" by (simp add: k_def h_def)
    finally have T': "mtCarbs (calculateMealMacros (carbCorrection foods target totals)) = T - h + E" .
    have "\<bar>(T - h + E) - (T - h)\<bar> \<le> of_nat (length idxs) / 2000" using Eb by simp
    then have "\<bar>(T - h + E) - tc\<bar> \<le> \<bar>T - tc\<bar> + of_nat (length idxs) / 2000"
      using carb_step_arith [of tc T h "T - h + E" "of_nat (length idxs) / 2000"] t scaled(1) h0 h1
      by (simp add: tc_def)
    then show ?thesis using T' by (simp add: T_def tc_def idxs_def)
  qed
qed

text \<open>
  Claim C1 as stated fails. The meal is one food, brown rice, with 10 g fat and 100 g
  carbohydrate; the target is 10 g fat and 50 g carbohydrate. The fat is on target, so its
  deviation is 0. The carbohydrate is in excess, rice is starchy, and the carb correction
  scales the whole serving by 0.65: the fat becomes 6.5, a deviation of 3.5. The second
  pass finds no fat food to raise and trims the rice again: the fat becomes 5.25, a
  deviation of 4.75.
\<close>

theorem rebalance_fat_deviation_counterexample:
  "mtFats (calculateMealMacros [riceFood]) = 10
   \<and> \<bar>mtFats (calculateMealMacros [riceFood]) - mtFats riceTarget\<bar> = 0
   \<and> \<bar>mtFats (calculateMealMacros (rebalancePass [riceFood] riceTarget)) - mtFats riceTarget\<bar> = 7 / 2
   \<and> \<bar>mtFats (calculateMealMacros (rebalancePass (rebalancePass [riceFood] riceTarget) riceTarget))
        - mtFats riceTarget\<bar> = 19 / 4
   \<and> mtFats (calculateMealMacros (rebalanceMealFoods [riceFood] riceTarget)) = 21 / 4"
  by code_simp

text \<open>
  Claim C1, amended. The rebalancer is two passes. In a pass in which the carb correction
  changes no serving, the distance of the aggregated fat from the target fat after the pass
  is at most the distance before it plus \<open>0.0005\<close>, the rounding of the one rescaled
  serving, when the target fat is not negative. In a pass in which the fat correction
  changes no serving, the distance of the aggregated carbohydrate from its target after the
  pass is at most the distance before it plus \<open>0.0005\<close> for each starchy food, when the
  target is not negative. (Both corrections rescale whole servings, so each can move the
  other macro away from its target.)
\<close>

theorem rebalancePass_deviation_isolated:
  "rebalanceMealFoods foods target = rebalancePass (rebalancePass foods target) target
   \<and> (0 \<le> mtFats target
        \<and> carbCorrection (fatCorrection foods target (calculateMealMacros foods)) target
              (calculateMealMacros foods)
            = fatCorrection foods target (calculateMealMacros foods)
        \<longrightarrow> \<bar>mtFats (calculateMealMacros (rebalancePass foods target)) - mtFats target\<bar>
            \<le> \<bar>mtFats (calculateMealMacros foods) - mtFats target\<bar> + 1 / 2000)
   \<and> (0 \<le> mtCarbs target
        \<and> fatCorrection foods target (calculateMealMacros foods) = foods
        \<longrightarrow> \<bar>mtCarbs (calculateMealMacros (rebalancePass foods target)) - mtCarbs target\<bar>
            \<le> \<bar>mtCarbs (calculateMealMacros foods) - mtCarbs target\<bar>
                + of_nat (length (findStarchyCarbIndexes foods)) / 2000)"
proof (intro conjI impI)
  show "rebalanceMealFoods foods target = rebalancePass (rebalancePass foods target) target"
    by (rule rebalanceMealFoods_two_passes)
next
  assume a: "0 \<le> mtFats target
        \<and> carbCorrection (fatCorrection foods target (calculateMealMacros foods)) target
              (calculateMealMacros foods)
            = fatCorrection foods target (calculateMealMacros foods)"
  then have "rebalancePass foods target = fatCorrection foods target (calculateMealMacros foods)"
    by (simp add: rebalancePass_unfold)
  then show "\<bar>mtFats (calculateMealMacros (rebalancePass foods target)) - mtFats target\<bar>
            \<le> \<bar>mtFats (calculateMealMacros foods) - mtFats target\<bar> + 1 / 2000"
    using fatCorrection_deviation [of target foods] a by simp
next
  assume a: "0 \<le> mtCarbs target \<and> fatCorrection foods target (calculateMealMacros foods) = foods"
  then have "rebalancePass foods target = carbCorrection foods target (calculateMealMacros foods)"
    by (simp add: rebalancePass_unfold)
  then show "\<bar>mtCarbs (calculateMealMacros (rebalancePass foods target)) - mtCarbs target\<bar>
            \<le> \<bar>mtCarbs (calculateMealMacros foods) - mtCarbs target\<bar>
                + of_nat (length (findStarchyCarbIndexes foods)) / 2000"
    using carbCorrection_deviation [of target "calculateMealMacros foods" foods] a by simp
qed

theorem rebalancePass_deviation_isolated_witness:
  "(0 \<le> mtFats avocadoTarget
    \<and> carbCorrection (fatCorrection [avocadoFood] avocadoTarget (calculateMealMacros [avocadoFood]))
          avocadoTarget (calculateMealMacros [avocadoFood])
        = fatCorrection [avocadoFood] avocadoTarget (calculateMealMacros [avocadoFood]))
   \<and> \<bar>mtFats (calculateMealMacros (rebalancePass [avocadoFood] avocadoTarget)) - mtFats avocadoTarget\<bar>
        \<le> \<bar>mtFats (calculateMealMacros [avocadoFood]) - mtFats avocadoTarget\<bar> + 1 / 2000
   \<and> (0 \<le> mtCarbs riceTarget
        \<and> fatCorrection [riceFood] riceTarget (calculateMealMacros [riceFood]) = [riceFood])
   \<and> \<bar>mtCarbs (calculateMealMacros (rebalancePass [riceFood] riceTarget)) - mtCarbs riceTarget\<bar>
        \<le> \<bar>mtCarbs (calculateMealMacros [riceFood]) - mtCarbs riceTarget\<bar>
            + of_nat (length (findStarchyCarbIndexes [riceFood])) / 2000"
proof -
  have h1: "0 \<le> mtFats avocadoTarget
    \<and> carbCorrection (fatCorrection [avocadoFood] avocadoTarget (calculateMealMacros [avocadoFood]))
          avocadoTarget (calculateMealMacros [avocadoFood])
        = fatCorrection [avocadoFood] avocadoTarget (calculateMealMacros [avocadoFood])"
    by code_simp
  have h2: "0 \<le> mtCarbs riceTarget
        \<and> fatCorrection [riceFood] riceTarget (calculateMealMacros [riceFood]) = [riceFood]"
    by code_simp
  show ?thesis
    using h1 h2 rebalancePass_deviation_isolated [of "[avocadoFood]" avocadoTarget] rebalancePass_deviation_isolated [of "[riceFood]" riceTarget]
    by blast
qed

lemma rebalancePass_samples:
  "mtFats (calculateMealMacros (rebalancePass [avocadoFood] avocadoTarget)) = 16
   \<and> mtCarbs (calculateMealMacros (rebalancePass [riceFood] riceTarget)) = 65"
  by code_simp

section \<open>Macro Rebalancer: the fat correction against the specification\<close>

text \<open>
  The model of \<^verbatim>\<open>strings.Contains\<close> holds exactly when the second string occurs
  in the first.
\<close>

lemma Contains_iff: "Contains s sub \<longleftrightarrow> (\<exists>pre post. s = pre @ sub @ post)"
proof (induction s)
  case Nil
  then show ?case by auto
next
  case (Cons c cs)
  have p: "HasPrefix (c # cs) sub \<longleftrightarrow> (\<exists>post. c # cs = sub @ post)"
    unfolding HasPrefix_def by (metis append_eq_conv_conj)
  show ?case
  proof
    assume "Contains (c # cs) sub"
    then consider "HasPrefix (c # cs) sub" | "Contains cs sub" by auto
    then show "\<exists>pre post. c # cs = pre @ sub @ post"
    proof cases
      case 1
      with p obtain post where "c # cs = [] @ sub @ post" by auto
      then show ?thesis by blast
    next
      case 2
      with Cons.IH obtain pre post where "cs = pre @ sub @ post" by blast
      then have "c # cs = (c # pre) @ sub @ post" by simp
      then show ?thesis by blast
    qed
  next
    assume "\<exists>pre post. c # cs = pre @ sub @ post"
    then obtain pre post where e: "c # cs = pre @ sub @ post" by blast
    show "Contains (c # cs) sub"
    proof (cases pre)
      case Nil
      with e have "\<exists>post. c # cs = sub @ post" by auto
      with p have "HasPrefix (c # cs) sub" by (simp only:)
      then show ?thesis by simp
    next
      case (Cons a pre')
      with e have "cs = pre' @ sub @ post" by simp
      with Cons.IH show ?thesis by auto
    qed
  qed
qed

lemma specNameHas_wholeFoodFat: "specNameHas specWholeFoodFatKeywords name = isWholeFoodFat name"
  by (simp add: specNameHas_def isWholeFoodFat_def specWholeFoodFatKeywords_def fatKeywords_def
      Let_def)

lemma specNameHas_highFatProtein:
  "specNameHas specHighFatProteinKeywords name = isHighFatProtein name"
  by (simp add: specNameHas_def isHighFatProtein_def specHighFatProteinKeywords_def Let_def)

lemma firstMatch_cong: "(\<And>n. p n = q n) \<Longrightarrow> firstMatch p foods = firstMatch q foods"
  by (induction foods) simp_all

lemma specFatTarget_code: "specFatTarget foods = fatTargetIndex foods"
  by (simp add: specFatTarget_def fatTargetIndex_def
      firstMatch_cong [of "specNameHas specWholeFoodFatKeywords" isWholeFoodFat, OF specNameHas_wholeFoodFat]
      firstMatch_cong [of "specNameHas specHighFatProteinKeywords" isHighFatProtein, OF specNameHas_highFatProtein]
      split: option.splits)

lemma specValue_code: "specValue v = parseFloatDefault v"
  by (simp add: specValue_def parseFloatDefault_def split: option.splits)

lemma specScaled_code: "0 < k \<Longrightarrow> specScaled s k = scaleServing s k"
  by (simp add: specScaled_def scaleServing_def specValue_code)

lemma specAggregatedFat_code: "specAggregatedFat foods = mtFats (calculateMealMacros foods)"
proof -
  have "(\<lambda>f. case Servings f of [] \<Rightarrow> 0 | s # others \<Rightarrow> specValue (Fat s)) = firstFat"
    by (simp add: fun_eq_iff firstFat_def specValue_code split: list.splits)
  then show ?thesis by (simp add: specAggregatedFat_def aggregated_fat)
qed

lemma fat_factor_positive:
  fixes a t f :: rat
  assumes "a < t" and "0 < f"
  shows "0 < 1 + min (6 / 10) ((t - a) / f * (8 / 10))"
proof -
  have "0 < (t - a) / f * (8 / 10)" using assms by simp
  then have "0 < min (6 / 10) ((t - a) / f * (8 / 10))" by simp
  then show ?thesis by simp
qed

lemma fatCorrection_specFatCorrection:
  "fatCorrection foods target (calculateMealMacros foods) = specFatCorrection foods target"
proof (cases "mtFats (calculateMealMacros foods) < mtFats target * (95 / 100)")
  case False
  then show ?thesis
    by (simp add: fatCorrection_unfold specFatCorrection_def specAggregatedFat_code)
next
  case low: True
  show ?thesis
  proof (cases "fatTargetIndex foods")
    case None
    with low show ?thesis
      by (simp add: fatCorrection_unfold specFatCorrection_def specAggregatedFat_code
          specFatTarget_code Let_def)
  next
    case (Some i)
    show ?thesis
    proof (cases "Servings (foods ! i)")
      case Nil
      with low Some show ?thesis
        by (simp add: fatCorrection_unfold specFatCorrection_def specAggregatedFat_code
            specFatTarget_code Let_def)
    next
      case (Cons s others)
      show ?thesis
      proof (cases "parseFloatDefault (Fat s) > 0")
        case False
        with low Some Cons show ?thesis
          by (simp add: fatCorrection_unfold specFatCorrection_def specAggregatedFat_code
              specFatTarget_code specValue_code Let_def)
      next
        case True
        have "specScaled s
                (1 + min (6 / 10)
                   ((mtFats target * (95 / 100) - mtFats (calculateMealMacros foods))
                      / parseFloatDefault (Fat s) * (8 / 10)))
              = scaleServing s
                (1 + min (6 / 10)
                   ((mtFats target * (95 / 100) - mtFats (calculateMealMacros foods))
                      / parseFloatDefault (Fat s) * (8 / 10)))"
          by (rule specScaled_code [OF fat_factor_positive [OF low True]])
        with low Some Cons True show ?thesis
          by (simp add: fatCorrection_unfold specFatCorrection_def specAggregatedFat_code
              specFatTarget_code specValue_code Let_def)
      qed
    qed
  qed
qed

text \<open>
  Claim C5. The rebalancer is exactly two passes; each pass is the fat correction followed
  by the carb correction, both on the totals aggregated at the start of the pass; and the
  fat correction of a pass is the one the specification describes
  (\<open>specFatCorrection\<close>, defined from the specification's words alone). When the
  aggregated fat is below \<open>0.95\<close> times the target fat, the target is the first food
  whose name has one of the whole-food-fat keywords, else the first whose name has one of
  salmon, beef, egg, whole milk, cheese; if there is one, it has a first serving and the
  fat of that serving is positive, then the gram amount and every nutrient field of that
  serving alone are multiplied by \<open>1 + min 0.6 (deficit / fat \<times> 0.8)\<close>, the deficit
  being \<open>0.95 \<times> target fat - aggregated fat\<close>, and formatted with three decimals; in
  every other case the fat correction leaves the list as it is.
\<close>

theorem fat_correction_as_specified:
  "rebalanceMealFoods foods target = rebalancePass (rebalancePass foods target) target
   \<and> rebalancePass foods target =
       carbCorrection (fatCorrection foods target (calculateMealMacros foods)) target
         (calculateMealMacros foods)
   \<and> fatCorrection foods target (calculateMealMacros foods) = specFatCorrection foods target"
  using fatCorrection_specFatCorrection [of foods target] rebalancePass_unfold [of foods target]
  by (simp only: rebalanceMealFoods_two_passes simp_thms)

text \<open>
  The theorem of claim C5 at a meal of brown rice (10 g fat) and scrambled egg (8 g fat) with a target
  of 20 g fat. The aggregated fat 18 is below 19; no name has a whole-food-fat keyword, the
  egg is the first food with a high-fat-protein keyword; the deficit is 1 and the factor
  \<open>1 + min 0.6 (1 / 8 \<times> 0.8) = 1.1\<close>. The rice is unchanged; of the egg the amount 100
  becomes 110, the calories 150 become 165, the fat 8 becomes 8.8.
\<close>

theorem fat_correction_as_specified_witness:
  "mtFats (calculateMealMacros [riceFood, eggFood]) = 18
   \<and> fatCorrection [riceFood, eggFood] avocadoTarget (calculateMealMacros [riceFood, eggFood])
       = [riceFood,
          eggFood\<lparr>Servings :=
            [(hd (Servings eggFood))\<lparr>MetricServingAmount := ''110.000'', Calories := ''165.000'',
               Protein := ''11.000'', Carbohydrate := ''2.200'', Fat := ''8.800'',
               Sugar := ''0.000'', Fiber := ''0.000'', SaturatedFat := ''0.000'',
               MonounsaturatedFat := ''0.000'', PolyunsaturatedFat := ''0.000'',
               Cholesterol := ''0.000'', Sodium := ''0.000'', Potassium := ''0.000'',
               Calcium := ''0.000'', Iron := ''0.000'', VitaminA := ''0.000'',
               VitaminB := ''0.000'', VitaminC := ''0.000'', VitaminD := ''0.000''\<rparr>]\<rparr>]"
proof -
  have a: "mtFats (calculateMealMacros [riceFood, eggFood]) = 18" by code_simp
  have e: "fatCorrection [riceFood, eggFood] avocadoTarget (calculateMealMacros [riceFood, eggFood])
      = specFatCorrection [riceFood, eggFood] avocadoTarget"
    using fat_correction_as_specified [of "[riceFood, eggFood]" avocadoTarget] by blast
  have s: "specFatCorrection [riceFood, eggFood] avocadoTarget
       = [riceFood,
          eggFood\<lparr>Servings :=
            [(hd (Servings eggFood))\<lparr>MetricServingAmount := ''110.000'', Calories := ''165.000'',
               Protein := ''11.000'', Carbohydrate := ''2.200'', Fat := ''8.800'',
               Sugar := ''0.000'', Fiber := ''0.000'', SaturatedFat := ''0.000'',
               MonounsaturatedFat := ''0.000'', PolyunsaturatedFat := ''0.000'',
               Cholesterol := ''0.000'', Sodium := ''0.000'', Potassium := ''0.000'',
               Calcium := ''0.000'', Iron := ''0.000'', VitaminA := ''0.000'',
               VitaminB := ''0.000'', VitaminC := ''0.000'', VitaminD := ''0.000''\<rparr>]\<rparr>]"
    by code_simp
  show ?thesis using a e s by simp
qed

section \<open>Concurrent Food Resolver: invariant\<close>

lemma countPc_Nil: "countPc P [] f = 0"
  by (simp add: countPc_def)

lemma countPc_Cons: "countPc P (a # names) f = (if P (f a) then 1 else 0) + countPc P names f"
  by (simp add: countPc_def)

lemma countPc_update_outside:
  "n \<notin> set names \<Longrightarrow> countPc P names (f(n := v)) = countPc P names f"
  by (induction names) (auto simp add: countPc_Nil countPc_Cons)

lemma countPc_update:
  "distinct names \<Longrightarrow> n \<in> set names \<Longrightarrow>
   countPc P names (f(n := v)) + (if P (f n) then 1 else 0)
     = countPc P names f + (if P v then 1 else 0)"
proof (induction names)
  case Nil
  then show ?case by simp
next
  case (Cons a names)
  define A where "A = countPc P names (f(n := v))"
  define B where "B = countPc P names f"
  define x :: nat where "x = (if P (f n) then 1 else 0)"
  define y :: nat where "y = (if P v then 1 else 0)"
  define z :: nat where "z = (if P (f a) then 1 else 0)"
  have c: "countPc P (a # names) f = z + B" by (simp add: countPc_Cons z_def B_def)
  show ?case
  proof (cases "a = n")
    case True
    then have "n \<notin> set names" using Cons.prems by simp
    then have ab: "A = B" unfolding A_def B_def by (rule countPc_update_outside)
    have "(f(n := v)) a = v" using True by simp
    then have "countPc P (a # names) (f(n := v)) = y + A"
      by (simp only: countPc_Cons y_def A_def)
    moreover have "z = x" using True by (simp add: z_def x_def)
    ultimately show ?thesis
      unfolding x_def [symmetric] y_def [symmetric] using c ab by linarith
  next
    case False
    then have "n \<in> set names" "distinct names" using Cons.prems by auto
    then have ih: "A + x = B + y" unfolding A_def B_def x_def y_def using Cons.IH by blast
    have "(f(n := v)) a = f a" using False by simp
    then have "countPc P (a # names) (f(n := v)) = z + A"
      by (simp only: countPc_Cons z_def A_def)
    then show ?thesis
      unfolding x_def [symmetric] y_def [symmetric] using c ih by linarith
  qed
qed

lemma countPc_pos: "n \<in> set names \<Longrightarrow> P (f n) \<Longrightarrow> 0 < countPc P names f"
  by (induction names) (auto simp add: countPc_Cons)

lemma countPc_zero: "countPc P names f = 0 \<longleftrightarrow> (\<forall>n \<in> set names. \<not> P (f n))"
  by (induction names) (auto simp add: countPc_Nil countPc_Cons)

lemma countPc_move:
  assumes "distinct names" "n \<in> set names"
  shows "P (f n) \<Longrightarrow> P v \<Longrightarrow> countPc P names (f(n := v)) = countPc P names f"
    and "\<not> P (f n) \<Longrightarrow> \<not> P v \<Longrightarrow> countPc P names (f(n := v)) = countPc P names f"
    and "\<not> P (f n) \<Longrightarrow> P v \<Longrightarrow> countPc P names (f(n := v)) = countPc P names f + 1"
    and "P (f n) \<Longrightarrow> \<not> P v \<Longrightarrow> countPc P names (f(n := v)) + 1 = countPc P names f"
  using countPc_update [OF assms, of P f v] by simp_all

lemma rankSum_Cons: "rankSum (a # names) f = rank (f a) + rankSum names f"
  by (simp add: rankSum_def)

lemma rankSum_update_outside:
  "n \<notin> set names \<Longrightarrow> rankSum names (f(n := v)) = rankSum names f"
  by (induction names) (auto simp add: rankSum_def)

lemma rankSum_update:
  "distinct names \<Longrightarrow> n \<in> set names \<Longrightarrow>
   rankSum names (f(n := v)) + rank (f n) = rankSum names f + rank v"
proof (induction names)
  case Nil
  then show ?case by simp
next
  case (Cons a names)
  define A where "A = rankSum names (f(n := v))"
  define B where "B = rankSum names f"
  have c: "rankSum (a # names) f = rank (f a) + B" by (simp add: rankSum_Cons B_def)
  show ?case
  proof (cases "a = n")
    case True
    then have "n \<notin> set names" using Cons.prems by simp
    then have ab: "A = B" unfolding A_def B_def by (rule rankSum_update_outside)
    have "(f(n := v)) a = v" using True by simp
    then have "rankSum (a # names) (f(n := v)) = rank v + A"
      by (simp only: rankSum_Cons A_def)
    moreover have "rank (f a) = rank (f n)" using True by simp
    ultimately show ?thesis using c ab by linarith
  next
    case False
    then have "n \<in> set names" "distinct names" using Cons.prems by auto
    then have ih: "A + rank (f n) = B + rank v" unfolding A_def B_def using Cons.IH by blast
    have "(f(n := v)) a = f a" using False by simp
    then have "rankSum (a # names) (f(n := v)) = rank (f a) + A"
      by (simp only: rankSum_Cons A_def)
    then show ?thesis using c ih by linarith
  qed
qed

lemma inv_started:
  "resolverInv sf names s \<Longrightarrow> procs s n \<noteq> NotStarted \<Longrightarrow> n \<in> set names \<and> n \<notin> set (pending s)"
  by (auto simp add: resolverInv_def)

lemma fire_Acquire_inv:
  assumes inv: "resolverInv sf names s" and f: "fire sf (Acquire n) s = Some s'"
  shows "resolverInv sf names s'"
proof -
  from f have pc: "procs s n = AtAcquire" and lt: "sem s < semaphoreCap"
    and s': "s' = s\<lparr>sem := sem s + 1, procs := (procs s)(n := AtSearch)\<rparr>"
    by (auto split: if_splits)
  have n: "n \<in> set names" "n \<notin> set (pending s)" using inv_started [OF inv, of n] pc by auto
  have d: "distinct names" using inv by (simp add: resolverInv_def)
  note mv = countPc_move [OF d n(1)]
  show ?thesis
    using inv pc lt n
    unfolding s' resolverInv_def
    by (auto simp add: mv)
qed

lemma fire_Spawn_inv:
  assumes inv: "resolverInv sf names s" and f: "fire sf Spawn s = Some s'"
  shows "resolverInv sf names s'"
proof -
  from f obtain n rest where p: "pending s = n # rest"
    and s': "s' = s\<lparr>pending := rest, apiCalls := apiCalls s + 1, wg := wg s + 1,
                  procs := (procs s)(n := AtAcquire)\<rparr>"
    by (auto split: list.splits)
  have d: "distinct names" using inv by (simp add: resolverInv_def)
  have n: "n \<in> set names" "n \<notin> set rest" using inv p by (auto simp add: resolverInv_def)
  have pc: "procs s n = NotStarted" using inv p by (auto simp add: resolverInv_def)
  have ret: "returned s = None" using inv p by (cases "returned s") (auto simp add: resolverInv_def)
  note mv = countPc_move [OF d n(1)]
  show ?thesis
    using inv pc n p ret
    unfolding s' resolverInv_def
    by (auto simp add: mv)
qed

lemma fire_CallSearch_inv:
  assumes inv: "resolverInv sf names s" and f: "fire sf (CallSearch n) s = Some s'"
  shows "resolverInv sf names s'"
proof -
  from f have pc: "procs s n = AtSearch"
    and s': "s' = s\<lparr>calls := calls s @ [n], procs := (procs s)(n := InSearch)\<rparr>"
    by (auto split: if_splits)
  have n: "n \<in> set names" "n \<notin> set (pending s)" using inv_started [OF inv, of n] pc by auto
  have d: "distinct names" using inv by (simp add: resolverInv_def)
  note mv = countPc_move [OF d n(1)]
  show ?thesis
    using inv pc n
    unfolding s' resolverInv_def
    by (auto simp add: mv)
qed

lemma fire_SearchReturns_inv:
  assumes inv: "resolverInv sf names s" and f: "fire sf (SearchReturns n) s = Some s'"
  shows "resolverInv sf names s'"
proof -
  from f have pc: "procs s n = InSearch"
    and s': "s' = s\<lparr>procs := (procs s)(n := AtLock (firstFood (sf n)))\<rparr>"
    by (auto split: if_splits)
  have n: "n \<in> set names" "n \<notin> set (pending s)" using inv_started [OF inv, of n] pc by auto
  have d: "distinct names" using inv by (simp add: resolverInv_def)
  note mv = countPc_move [OF d n(1)]
  show ?thesis
    using inv pc n
    unfolding s' resolverInv_def
    by (auto simp add: mv)
qed

lemma fire_Lock_inv:
  assumes inv: "resolverInv sf names s" and f: "fire sf (Lock n) s = Some s'"
  shows "resolverInv sf names s'"
proof -
  from f obtain food where pc: "procs s n = AtLock food" and free: "\<not> mutexHeld s"
    and s': "s' = s\<lparr>mutexHeld := True, procs := (procs s)(n := AtStore food)\<rparr>"
    by (auto split: gpc.splits if_splits)
  have n: "n \<in> set names" "n \<notin> set (pending s)" using inv_started [OF inv, of n] pc by auto
  have d: "distinct names" using inv by (simp add: resolverInv_def)
  note mv = countPc_move [OF d n(1)]
  show ?thesis
    using inv pc n free
    unfolding s' resolverInv_def
    by (auto simp add: mv)
qed

lemma fire_Store_inv:
  assumes inv: "resolverInv sf names s" and f: "fire sf (Store n) s = Some s'"
  shows "resolverInv sf names s'"
proof -
  from f obtain food where pc: "procs s n = AtStore food"
    and s': "s' = s\<lparr>foodResults := (foodResults s)(n \<mapsto> food), procs := (procs s)(n := AtUnlock)\<rparr>"
    by (auto split: gpc.splits)
  have n: "n \<in> set names" "n \<notin> set (pending s)" using inv_started [OF inv, of n] pc by auto
  have d: "distinct names" using inv by (simp add: resolverInv_def)
  have fd: "food = firstFood (sf n)" using inv pc by (auto simp add: resolverInv_def)
  have ret: "returned s = None"
  proof (cases "returned s")
    case (Some m)
    then have "wg s = 0" using inv by (simp add: resolverInv_def)
    moreover have "0 < countPc active names (procs s)"
      using countPc_pos [of n names active "procs s"] n pc by simp
    ultimately show ?thesis using inv by (simp add: resolverInv_def)
  qed simp
  note mv = countPc_move [OF d n(1)]
  have old: "\<forall>m. foodResults s m = (if hasStored (procs s m) then Some (firstFood (sf m)) else None)"
    using inv by (simp add: resolverInv_def)
  have A: "\<forall>m. ((foodResults s)(n \<mapsto> food)) m
      = (if hasStored (((procs s)(n := AtUnlock)) m) then Some (firstFood (sf m)) else None)"
  proof
    fix m
    show "((foodResults s)(n \<mapsto> food)) m
      = (if hasStored (((procs s)(n := AtUnlock)) m) then Some (firstFood (sf m)) else None)"
      using old fd by (cases "m = n") simp_all
  qed
  have B: "{m. hasCalled (((procs s)(n := AtUnlock)) m)} = {m. hasCalled (procs s m)}"
    using pc by auto
  have C: "\<forall>m food. carried (((procs s)(n := AtUnlock)) m) = Some food \<longrightarrow> food = firstFood (sf m)"
    using inv by (auto simp add: resolverInv_def)
  have D: "\<forall>m. (((procs s)(n := AtUnlock)) m = NotStarted) = (m \<notin> set names \<or> m \<in> set (pending s))"
    using inv pc n by (auto simp add: resolverInv_def)
  have c1: "countPc holdsSlot names ((procs s)(n := AtUnlock)) = countPc holdsSlot names (procs s)"
    using mv(1) [of holdsSlot "procs s" AtUnlock] pc by simp
  have c2: "countPc holdsMutex names ((procs s)(n := AtUnlock)) = countPc holdsMutex names (procs s)"
    using mv(1) [of holdsMutex "procs s" AtUnlock] pc by simp
  have c3: "countPc active names ((procs s)(n := AtUnlock)) = countPc active names (procs s)"
    using mv(1) [of active "procs s" AtUnlock] pc by simp
  show ?thesis
    using inv ret A B C D c1 c2 c3
    unfolding s' resolverInv_def
    by simp
qed

lemma fire_Unlock_inv:
  assumes inv: "resolverInv sf names s" and f: "fire sf (Unlock n) s = Some s'"
  shows "resolverInv sf names s'"
proof -
  from f have pc: "procs s n = AtUnlock"
    and s': "s' = s\<lparr>mutexHeld := False, procs := (procs s)(n := AtRelease)\<rparr>"
    by (auto split: if_splits)
  have n: "n \<in> set names" "n \<notin> set (pending s)" using inv_started [OF inv, of n] pc by auto
  have d: "distinct names" using inv by (simp add: resolverInv_def)
  have "0 < countPc holdsMutex names (procs s)"
    using countPc_pos [of n names holdsMutex "procs s"] n pc by simp
  then have held: "mutexHeld s" "countPc holdsMutex names (procs s) = 1"
    using inv by (auto simp add: resolverInv_def split: if_splits)
  note mv = countPc_move [OF d n(1)]
  have "countPc holdsMutex names ((procs s)(n := AtRelease)) + 1 = countPc holdsMutex names (procs s)"
    using mv(4) [of holdsMutex "procs s" AtRelease] pc by simp
  then have z: "countPc holdsMutex names ((procs s)(n := AtRelease)) = 0" using held by simp
  show ?thesis
    using inv pc n z
    unfolding s' resolverInv_def
    by (auto simp add: mv)
qed

lemma fire_Release_inv:
  assumes inv: "resolverInv sf names s" and f: "fire sf (Release n) s = Some s'"
  shows "resolverInv sf names s'"
proof -
  from f have pc: "procs s n = AtRelease" and pos: "0 < sem s"
    and s': "s' = s\<lparr>sem := sem s - 1, procs := (procs s)(n := AtDone)\<rparr>"
    by (auto split: if_splits)
  have n: "n \<in> set names" "n \<notin> set (pending s)" using inv_started [OF inv, of n] pc by auto
  have d: "distinct names" using inv by (simp add: resolverInv_def)
  note mv = countPc_move [OF d n(1)]
  have "countPc holdsSlot names ((procs s)(n := AtDone)) + 1 = countPc holdsSlot names (procs s)"
    using mv(4) [of holdsSlot "procs s" AtDone] pc by simp
  then have z: "countPc holdsSlot names ((procs s)(n := AtDone)) = sem s - 1"
    using inv by (simp add: resolverInv_def)
  show ?thesis
    using inv pc n z pos
    unfolding s' resolverInv_def
    by (auto simp add: mv)
qed

lemma fire_Done_inv:
  assumes inv: "resolverInv sf names s" and f: "fire sf (Done n) s = Some s'"
  shows "resolverInv sf names s'"
proof -
  from f have pc: "procs s n = AtDone" and pos: "0 < wg s"
    and s': "s' = s\<lparr>wg := wg s - 1, procs := (procs s)(n := Finished)\<rparr>"
    by (auto split: if_splits)
  have n: "n \<in> set names" "n \<notin> set (pending s)" using inv_started [OF inv, of n] pc by auto
  have d: "distinct names" using inv by (simp add: resolverInv_def)
  note mv = countPc_move [OF d n(1)]
  have "countPc active names ((procs s)(n := Finished)) + 1 = countPc active names (procs s)"
    using mv(4) [of active "procs s" Finished] pc by simp
  then have z: "countPc active names ((procs s)(n := Finished)) = wg s - 1"
    using inv by (simp add: resolverInv_def)
  have ret: "returned s = None" using inv pos by (cases "returned s") (auto simp add: resolverInv_def)
  show ?thesis
    using inv pc n z pos ret
    unfolding s' resolverInv_def
    by (auto simp add: mv)
qed

lemma fire_WaitReturn_inv:
  assumes inv: "resolverInv sf names s" and f: "fire sf WaitReturn s = Some s'"
  shows "resolverInv sf names s'"
proof -
  from f have c: "pending s = []" "wg s = 0" "returned s = None"
    and s': "s' = s\<lparr>returned := Some (foodResults s)\<rparr>"
    by (auto split: if_splits)
  show ?thesis
    using inv c unfolding s' resolverInv_def by auto
qed

lemma fire_inv:
  "resolverInv sf names s \<Longrightarrow> fire sf e s = Some s' \<Longrightarrow> resolverInv sf names s'"
  by (cases e)
    (blast intro: fire_Spawn_inv fire_Acquire_inv fire_CallSearch_inv fire_SearchReturns_inv
       fire_Lock_inv fire_Store_inv fire_Unlock_inv fire_Release_inv fire_Done_inv
       fire_WaitReturn_inv)+

lemma run_inv:
  "resolverInv sf names s \<Longrightarrow> run sf es s = Some s' \<Longrightarrow> resolverInv sf names s'"
proof (induction es arbitrary: s)
  case Nil
  then show ?case by simp
next
  case (Cons e es)
  then obtain s1 where f: "fire sf e s = Some s1" and r: "run sf es s1 = Some s'"
    by (auto split: option.splits)
  from fire_inv [OF Cons.prems(1) f] r show ?case by (rule Cons.IH)
qed

lemma countPc_none: "(\<And>n. \<not> P (f n)) \<Longrightarrow> countPc P names f = 0"
  by (simp add: countPc_zero)

lemma init_inv: "distinct names \<Longrightarrow> resolverInv sf names (initState names)"
  by (auto simp add: resolverInv_def initState_def countPc_none)

lemma reachable_inv:
  "distinct names \<Longrightarrow> run sf es (initState names) = Some s \<Longrightarrow> resolverInv sf names s"
  using run_inv [OF init_inv] by blast

lemma countPc_mono:
  "(\<And>pc. P pc \<Longrightarrow> Q pc) \<Longrightarrow> countPc P names f \<le> countPc Q names f"
  by (induction names) (auto simp add: countPc_Nil countPc_Cons)

lemma countPc_unique:
  "distinct names \<Longrightarrow> countPc P names f \<le> 1 \<Longrightarrow> n \<in> set names \<Longrightarrow> m \<in> set names \<Longrightarrow>
   P (f n) \<Longrightarrow> P (f m) \<Longrightarrow> n = m"
proof (induction names)
  case Nil
  then show ?case by simp
next
  case (Cons a names)
  show ?case
  proof (cases "P (f a)")
    case True
    then have "countPc P names f = 0" using Cons.prems(2) by (simp add: countPc_Cons)
    then have "\<forall>x \<in> set names. \<not> P (f x)" by (simp add: countPc_zero)
    then show ?thesis using Cons.prems by auto
  next
    case False
    then have "countPc P names f \<le> 1" "n \<in> set names" "m \<in> set names"
      using Cons.prems by (auto simp add: countPc_Cons)
    then show ?thesis using Cons.IH Cons.prems by auto
  qed
qed

lemma joined:
  assumes inv: "resolverInv sf names s" and r: "returned s = Some m"
  shows "(\<forall>n \<in> set names. procs s n = Finished)"
    and "dom m = set names"
    and "\<forall>n \<in> set names. m n = Some (firstFood (sf n))"
    and "distinct (calls s)" and "set (calls s) = set names"
proof -
  from inv r have m: "m = foodResults s" and p: "pending s = []" and w: "wg s = 0"
    by (auto simp add: resolverInv_def)
  have "countPc active names (procs s) = 0" using inv w by (simp add: resolverInv_def)
  then have na: "\<forall>n \<in> set names. \<not> active (procs s n)" by (simp add: countPc_zero)
  have ns: "\<forall>n. procs s n = NotStarted \<longleftrightarrow> n \<notin> set names"
    using inv p by (simp add: resolverInv_def)
  show fin: "\<forall>n \<in> set names. procs s n = Finished"
  proof
    fix n assume n: "n \<in> set names"
    then have "\<not> active (procs s n)" "procs s n \<noteq> NotStarted" using na ns by auto
    then show "procs s n = Finished" by (cases "procs s n") auto
  qed
  have fr: "\<forall>n. foodResults s n = (if hasStored (procs s n) then Some (firstFood (sf n)) else None)"
    using inv by (simp add: resolverInv_def)
  show "\<forall>n \<in> set names. m n = Some (firstFood (sf n))"
    using fr fin m by simp
  show "dom m = set names"
  proof (rule set_eqI)
    fix n
    show "n \<in> dom m \<longleftrightarrow> n \<in> set names"
    proof (cases "n \<in> set names")
      case True
      then show ?thesis using fr fin m by (simp add: dom_def)
    next
      case False
      then have "procs s n = NotStarted" using ns by simp
      then show ?thesis using fr m False by (simp add: dom_def)
    qed
  qed
  show "distinct (calls s)" using inv by (simp add: resolverInv_def)
  have "set (calls s) = {n. hasCalled (procs s n)}" using inv by (simp add: resolverInv_def)
  moreover have "{n. hasCalled (procs s n)} = set names"
  proof (rule set_eqI)
    fix n
    show "n \<in> {n. hasCalled (procs s n)} \<longleftrightarrow> n \<in> set names"
    proof (cases "n \<in> set names")
      case True
      then show ?thesis using fin by simp
    next
      case False
      then have "procs s n = NotStarted" using ns by simp
      then show ?thesis using False by simp
    qed
  qed
  ultimately show "set (calls s) = set names" by simp
qed

section \<open>Concurrent Food Resolver: every schedule ends, and ends with the return\<close>

lemma weight_move:
  assumes inv: "resolverInv sf names s" and pc: "procs s n \<noteq> NotStarted"
    and r: "rank (procs s n) = Suc (rank v)"
  shows "rankSum names ((procs s)(n := v)) < rankSum names (procs s)"
proof -
  have d: "distinct names" using inv by (simp add: resolverInv_def)
  have n: "n \<in> set names" using inv_started [OF inv pc] by simp
  from rankSum_update [OF d n, of "procs s" v] r show ?thesis by linarith
qed

lemma fire_weight:
  assumes inv: "resolverInv sf names s" and f: "fire sf e s = Some s'"
  shows "weight names s' < weight names s"
proof (cases e)
  case Spawn
  with f obtain n rest where p: "pending s = n # rest"
    and s': "s' = s\<lparr>pending := rest, apiCalls := apiCalls s + 1, wg := wg s + 1,
                  procs := (procs s)(n := AtAcquire)\<rparr>"
    by (auto split: list.splits)
  have d: "distinct names" using inv by (simp add: resolverInv_def)
  have n: "n \<in> set names" using inv p by (auto simp add: resolverInv_def)
  have pc: "procs s n = NotStarted" using inv p by (auto simp add: resolverInv_def)
  from rankSum_update [OF d n, of "procs s" AtAcquire] pc
  have "rankSum names ((procs s)(n := AtAcquire)) < rankSum names (procs s)" by simp
  then show ?thesis by (simp add: weight_def s')
next
  case (Acquire n)
  with f have pc: "procs s n = AtAcquire"
    and s': "s' = s\<lparr>sem := sem s + 1, procs := (procs s)(n := AtSearch)\<rparr>"
    by (auto split: if_splits)
  from weight_move [OF inv, of n AtSearch] pc show ?thesis by (simp add: weight_def s')
next
  case (CallSearch n)
  with f have pc: "procs s n = AtSearch"
    and s': "s' = s\<lparr>calls := calls s @ [n], procs := (procs s)(n := InSearch)\<rparr>"
    by (auto split: if_splits)
  from weight_move [OF inv, of n InSearch] pc show ?thesis by (simp add: weight_def s')
next
  case (SearchReturns n)
  with f have pc: "procs s n = InSearch"
    and s': "s' = s\<lparr>procs := (procs s)(n := AtLock (firstFood (sf n)))\<rparr>"
    by (auto split: if_splits)
  from weight_move [OF inv, of n "AtLock (firstFood (sf n))"] pc
  show ?thesis by (simp add: weight_def s')
next
  case (Lock n)
  with f obtain food where pc: "procs s n = AtLock food"
    and s': "s' = s\<lparr>mutexHeld := True, procs := (procs s)(n := AtStore food)\<rparr>"
    by (auto split: gpc.splits if_splits)
  from weight_move [OF inv, of n "AtStore food"] pc show ?thesis by (simp add: weight_def s')
next
  case (Store n)
  with f obtain food where pc: "procs s n = AtStore food"
    and s': "s' = s\<lparr>foodResults := (foodResults s)(n \<mapsto> food),
                  procs := (procs s)(n := AtUnlock)\<rparr>"
    by (auto split: gpc.splits)
  from weight_move [OF inv, of n AtUnlock] pc show ?thesis by (simp add: weight_def s')
next
  case (Unlock n)
  with f have pc: "procs s n = AtUnlock"
    and s': "s' = s\<lparr>mutexHeld := False, procs := (procs s)(n := AtRelease)\<rparr>"
    by (auto split: if_splits)
  from weight_move [OF inv, of n AtRelease] pc show ?thesis by (simp add: weight_def s')
next
  case (Release n)
  with f have pc: "procs s n = AtRelease"
    and s': "s' = s\<lparr>sem := sem s - 1, procs := (procs s)(n := AtDone)\<rparr>"
    by (auto split: if_splits)
  from weight_move [OF inv, of n AtDone] pc show ?thesis by (simp add: weight_def s')
next
  case (Done n)
  with f have pc: "procs s n = AtDone"
    and s': "s' = s\<lparr>wg := wg s - 1, procs := (procs s)(n := Finished)\<rparr>"
    by (auto split: if_splits)
  from weight_move [OF inv, of n Finished] pc show ?thesis by (simp add: weight_def s')
next
  case WaitReturn
  with f have "returned s = None" and s': "s' = s\<lparr>returned := Some (foodResults s)\<rparr>"
    by (auto split: if_splits)
  then show ?thesis by (simp add: weight_def)
qed

lemma run_length:
  "resolverInv sf names s \<Longrightarrow> run sf es s = Some s' \<Longrightarrow>
   length es + weight names s' \<le> weight names s"
proof (induction es arbitrary: s)
  case Nil
  then show ?case by simp
next
  case (Cons e es)
  then obtain s1 where f: "fire sf e s = Some s1" and r: "run sf es s1 = Some s'"
    by (auto split: option.splits)
  have "length es + weight names s' \<le> weight names s1"
    using Cons.IH [OF fire_inv [OF Cons.prems(1) f] r] .
  moreover have "weight names s1 < weight names s" using fire_weight [OF Cons.prems(1) f] .
  ultimately show ?case by simp
qed

lemma rankSum_init: "rankSum names (\<lambda>n. NotStarted) = 9 * length names"
  by (induction names) (simp_all add: rankSum_def)

lemma weight_init: "weight names (initState names) = 9 * length names + 1"
  by (simp add: weight_def initState_def rankSum_init)

lemma mutex_holder_steps:
  assumes "holdsMutex (procs s k)"
  shows "\<exists>e s'. fire sf e s = Some s'"
proof (cases "procs s k")
  case (AtStore food)
  then have "fire sf (Store k) s \<noteq> None" by simp
  then show ?thesis by blast
next
  case AtUnlock
  then have "fire sf (Unlock k) s \<noteq> None" by simp
  then show ?thesis by blast
qed (use assms in simp_all)

lemma slot_holder_steps:
  assumes inv: "resolverInv sf names s" and m: "m \<in> set names" and h: "holdsSlot (procs s m)"
  shows "\<exists>e s'. fire sf e s = Some s'"
proof (cases "procs s m")
  case AtSearch
  then have "fire sf (CallSearch m) s \<noteq> None" by simp
  then show ?thesis by blast
next
  case InSearch
  then have "fire sf (SearchReturns m) s \<noteq> None" by simp
  then show ?thesis by blast
next
  case (AtLock food)
  show ?thesis
  proof (cases "mutexHeld s")
    case False
    with AtLock have "fire sf (Lock m) s \<noteq> None" by simp
    then show ?thesis by blast
  next
    case True
    then have "countPc holdsMutex names (procs s) \<noteq> 0" using inv by (simp add: resolverInv_def)
    then obtain k where "holdsMutex (procs s k)" by (auto simp add: countPc_zero)
    then show ?thesis by (rule mutex_holder_steps)
  qed
next
  case (AtStore food)
  then have "holdsMutex (procs s m)" by simp
  then show ?thesis by (rule mutex_holder_steps)
next
  case AtUnlock
  then have "holdsMutex (procs s m)" by simp
  then show ?thesis by (rule mutex_holder_steps)
next
  case AtRelease
  have "0 < countPc holdsSlot names (procs s)" using countPc_pos [OF m, of holdsSlot "procs s"] h .
  then have "0 < sem s" using inv by (simp add: resolverInv_def)
  with AtRelease have "fire sf (Release m) s \<noteq> None" by simp
  then show ?thesis by blast
qed (use h in simp_all)

lemma progress:
  assumes inv: "resolverInv sf names s" and r: "returned s = None"
  shows "\<exists>e s'. fire sf e s = Some s'"
proof (cases "pending s")
  case (Cons n rest)
  then have "fire sf Spawn s \<noteq> None" by simp
  then show ?thesis by blast
next
  case Nil
  show ?thesis
  proof (cases "wg s = 0")
    case True
    with Nil r have "fire sf WaitReturn s \<noteq> None" by simp
    then show ?thesis by blast
  next
    case False
    then have "countPc active names (procs s) \<noteq> 0" using inv by (simp add: resolverInv_def)
    then obtain n where n: "n \<in> set names" and a: "active (procs s n)"
      by (auto simp add: countPc_zero)
    show ?thesis
    proof (cases "holdsSlot (procs s n)")
      case True
      then show ?thesis using slot_holder_steps [OF inv n] by blast
    next
      case noslot: False
      show ?thesis
      proof (cases "procs s n = AtDone")
        case True
        with False have "fire sf (Done n) s \<noteq> None" by simp
        then show ?thesis by blast
      next
        case notdone: False
        from a noslot notdone have acq: "procs s n = AtAcquire"
          by (cases "procs s n") simp_all
        show ?thesis
        proof (cases "sem s < semaphoreCap")
          case True
          with acq have "fire sf (Acquire n) s \<noteq> None" by simp
          then show ?thesis by blast
        next
          case False
          then have "countPc holdsSlot names (procs s) \<noteq> 0"
            using inv by (simp add: resolverInv_def semaphoreCap_def)
          then obtain m where "m \<in> set names" "holdsSlot (procs s m)"
            by (auto simp add: countPc_zero)
          then show ?thesis using slot_holder_steps [OF inv] by blast
        qed
      qed
    qed
  qed
qed

lemma completion:
  "resolverInv sf names s \<Longrightarrow> \<exists>es s' m. run sf es s = Some s' \<and> returned s' = Some m"
proof (induction "weight names s" arbitrary: s rule: less_induct)
  case less
  show ?case
  proof (cases "returned s")
    case (Some m)
    then have "run sf [] s = Some s \<and> returned s = Some m" by simp
    then show ?thesis by blast
  next
    case None
    from progress [OF less.prems None] obtain e s1 where f: "fire sf e s = Some s1" by blast
    have "weight names s1 < weight names s" using fire_weight [OF less.prems f] .
    from less.hyps [OF this fire_inv [OF less.prems f]]
    obtain es s' m where "run sf es s1 = Some s'" "returned s' = Some m" by blast
    then have "run sf (e # es) s = Some s' \<and> returned s' = Some m" using f by simp
    then show ?thesis by blast
  qed
qed

lemma final_state:
  assumes inv: "resolverInv sf names s" and r: "returned s = Some m"
  shows "fire sf e s = None"
proof -
  from inv r have p: "pending s = []" by (auto simp add: resolverInv_def)
  have fin: "\<forall>n \<in> set names. procs s n = Finished" using joined(1) [OF inv r] .
  have ns: "\<And>n. n \<notin> set names \<Longrightarrow> procs s n = NotStarted"
    using inv by (simp add: resolverInv_def)
  have st: "\<And>n. procs s n = Finished \<or> procs s n = NotStarted"
    using fin ns by blast
  show ?thesis
  proof (cases e)
    case Spawn
    then show ?thesis using p by simp
  next
    case WaitReturn
    then show ?thesis using r by simp
  next
    case (Acquire n)
    then show ?thesis using st [of n] by auto
  next
    case (CallSearch n)
    then show ?thesis using st [of n] by auto
  next
    case (SearchReturns n)
    then show ?thesis using st [of n] by auto
  next
    case (Lock n)
    then show ?thesis using st [of n] by auto
  next
    case (Store n)
    then show ?thesis using st [of n] by auto
  next
    case (Unlock n)
    then show ?thesis using st [of n] by auto
  next
    case (Release n)
    then show ?thesis using st [of n] by auto
  next
    case (Done n)
    then show ?thesis using st [of n] by auto
  qed
qed

section \<open>Concurrent Food Resolver: the claims\<close>

lemma dom_collectNames:
  "dom (collectNames uniqueFoods fs) = dom uniqueFoods \<union> set (map Name fs)"
  by (induction fs arbitrary: uniqueFoods) auto

lemma dom_collectPlan:
  "dom (collectPlan uniqueFoods meals) = dom uniqueFoods \<union> set (map Name (concat meals))"
  by (induction meals arbitrary: uniqueFoods) (auto simp add: dom_collectNames)

lemma only_Store_writes:
  "fire sf e s = Some s' \<Longrightarrow> foodResults s' \<noteq> foodResults s \<Longrightarrow>
   \<exists>n food. e = Store n \<and> procs s n = AtStore food"
  by (cases e) (auto split: list.splits if_splits gpc.splits)

lemma write_under_mutex:
  assumes inv: "resolverInv sf names s" and f: "fire sf e s = Some s'"
    and w: "foodResults s' \<noteq> foodResults s"
  shows "\<exists>n. e = Store n \<and> mutexHeld s \<and> holdsMutex (procs s n)
           \<and> (\<forall>k \<in> set names. holdsMutex (procs s k) \<longrightarrow> k = n)"
proof -
  from only_Store_writes [OF f w] obtain n food where e: "e = Store n"
    and pc: "procs s n = AtStore food" by blast
  have d: "distinct names" using inv by (simp add: resolverInv_def)
  have n: "n \<in> set names" using inv_started [OF inv, of n] pc by simp
  have h: "holdsMutex (procs s n)" using pc by simp
  have pos: "0 < countPc holdsMutex names (procs s)"
    using countPc_pos [OF n, of holdsMutex "procs s"] h .
  have c: "(if mutexHeld s then 1 else 0) = countPc holdsMutex names (procs s)"
    using inv by (simp add: resolverInv_def)
  have held: "mutexHeld s" using pos c by (cases "mutexHeld s") simp_all
  have le: "countPc holdsMutex names (procs s) \<le> 1" using c by (cases "mutexHeld s") simp_all
  have "\<forall>k \<in> set names. holdsMutex (procs s k) \<longrightarrow> k = n"
    using countPc_unique [OF d le _ n _ h] by blast
  then show ?thesis using e held h by blast
qed

lemma mutex_count: "resolverInv sf names s \<Longrightarrow> countPc holdsMutex names (procs s) \<le> 1"
  by (cases "mutexHeld s") (simp_all add: resolverInv_def)

lemma in_flight_bound:
  "resolverInv sf names s \<Longrightarrow> countPc (\<lambda>pc. pc = InSearch) names (procs s) \<le> sem s"
  using countPc_mono [of "\<lambda>pc. pc = InSearch" holdsSlot names "procs s"]
  by (simp add: resolverInv_def)

text \<open>
  Claim C9. In every state that any schedule of \<^verbatim>\<open>batchFetchFoods\<close> reaches from
  the start on a key list without repetition: the semaphore holds as many tokens as there
  are goroutines between acquiring and releasing it, at most 10, so at most 10 lookups are
  in flight; at most one goroutine is between \<^verbatim>\<open>mutex.Lock\<close> and
  \<^verbatim>\<open>mutex.Unlock\<close>, and a step that changes the result map is the store of that
  goroutine, taken with the mutex held; once the map has been returned every goroutine has
  finished, the returned map is the final result map with exactly the input names as keys,
  and no step is left. Every schedule has at most \<open>9 \<times> names + 1\<close> steps and can be
  extended to one that returns, so the call returns under every interleaving.
\<close>

theorem resolver_bounded_exclusive_joined:
  assumes d: "distinct names" and r: "run sf es (initState names) = Some s"
  shows "sem s = countPc holdsSlot names (procs s) \<and> sem s \<le> 10
    \<and> countPc (\<lambda>pc. pc = InSearch) names (procs s) \<le> 10
    \<and> countPc holdsMutex names (procs s) \<le> 1
    \<and> (\<forall>e s'. fire sf e s = Some s' \<and> foodResults s' \<noteq> foodResults s \<longrightarrow>
          (\<exists>n. e = Store n \<and> mutexHeld s \<and> holdsMutex (procs s n)
               \<and> (\<forall>k \<in> set names. holdsMutex (procs s k) \<longrightarrow> k = n)))
    \<and> (\<forall>m. returned s = Some m \<longrightarrow>
          (\<forall>n \<in> set names. procs s n = Finished) \<and> m = foodResults s \<and> dom m = set names
          \<and> (\<forall>e. fire sf e s = None))
    \<and> length es \<le> 9 * length names + 1
    \<and> (\<exists>es' s' m. run sf es' s = Some s' \<and> returned s' = Some m)"
proof -
  have inv: "resolverInv sf names s" using reachable_inv [OF d r] .
  have a: "sem s = countPc holdsSlot names (procs s)" "sem s \<le> 10"
    using inv by (simp_all add: resolverInv_def semaphoreCap_def)
  have b: "countPc (\<lambda>pc. pc = InSearch) names (procs s) \<le> 10"
    using in_flight_bound [OF inv] a(2) by simp
  have c: "countPc holdsMutex names (procs s) \<le> 1" using mutex_count [OF inv] .
  have w: "\<forall>e s'. fire sf e s = Some s' \<and> foodResults s' \<noteq> foodResults s \<longrightarrow>
          (\<exists>n. e = Store n \<and> mutexHeld s \<and> holdsMutex (procs s n)
               \<and> (\<forall>k \<in> set names. holdsMutex (procs s k) \<longrightarrow> k = n))"
    using write_under_mutex [OF inv] by blast
  have j: "\<forall>m. returned s = Some m \<longrightarrow>
          (\<forall>n \<in> set names. procs s n = Finished) \<and> m = foodResults s \<and> dom m = set names
          \<and> (\<forall>e. fire sf e s = None)"
  proof (intro allI impI)
    fix m assume m: "returned s = Some m"
    have "m = foodResults s" using inv m by (simp add: resolverInv_def)
    then show "(\<forall>n \<in> set names. procs s n = Finished) \<and> m = foodResults s \<and> dom m = set names
          \<and> (\<forall>e. fire sf e s = None)"
      using joined(1,2) [OF inv m] final_state [OF inv m] by blast
  qed
  have "length es + weight names s \<le> weight names (initState names)"
    using run_length [OF init_inv [OF d] r] .
  then have l: "length es \<le> 9 * length names + 1" by (simp add: weight_init)
  have e: "\<exists>es' s' m. run sf es' s = Some s' \<and> returned s' = Some m"
    using completion [OF inv] .
  show ?thesis using a b c w j l e by blast
qed

text \<open>
  Claim C3. Let the key list enumerate, without repetition, the names collected from all
  meals of the plan. Then some schedule returns, and whenever a schedule has returned a
  map, its keys are exactly the names of the plan, every name is mapped to the first food
  of its lookup or to the absence marker, and the log of lookups holds every name of the
  plan exactly once, however many meals mention it.
\<close>

theorem resolver_one_entry_one_lookup:
  assumes d: "distinct names" and k: "set names = dom (collectPlan Map.empty meals)"
  shows "(\<exists>es s m. run sf es (initState names) = Some s \<and> returned s = Some m)
    \<and> (\<forall>es s m. run sf es (initState names) = Some s \<and> returned s = Some m \<longrightarrow>
          dom m = set (map Name (concat meals))
          \<and> (\<forall>n \<in> set (map Name (concat meals)). m n = Some (firstFood (sf n)))
          \<and> distinct (calls s) \<and> set (calls s) = set (map Name (concat meals)))"
proof (intro conjI allI impI)
  have "\<exists>es s m. run sf es (initState names) = Some s \<and> returned s = Some m"
    using completion [OF init_inv [OF d]] .
  then show "\<exists>es s m. run sf es (initState names) = Some s \<and> returned s = Some m" .
next
  fix es s m
  assume a: "run sf es (initState names) = Some s \<and> returned s = Some m"
  have inv: "resolverInv sf names s" using reachable_inv [OF d] a by blast
  have m: "returned s = Some m" using a by simp
  have nm: "set names = set (map Name (concat meals))" using k by (simp add: dom_collectPlan)
  show "dom m = set (map Name (concat meals))" using joined(2) [OF inv m] nm by simp
  show "\<forall>n \<in> set (map Name (concat meals)). m n = Some (firstFood (sf n))"
    using joined(3) [OF inv m] nm by simp
  show "distinct (calls s)" using joined(4) [OF inv m] .
  show "set (calls s) = set (map Name (concat meals))" using joined(5) [OF inv m] nm by simp
qed

theorem resolver_bounded_exclusive_joined_witness:
  "distinct sampleNames
   \<and> run sampleSearch midSchedule (initState sampleNames) \<noteq> None
   \<and> fire sampleSearch (Store ''Tofu'') (the (run sampleSearch midSchedule (initState sampleNames)))
       \<noteq> None
   \<and> mutexHeld (the (run sampleSearch midSchedule (initState sampleNames)))
   \<and> sem (the (run sampleSearch midSchedule (initState sampleNames))) = 2
   \<and> run sampleSearch sampleSchedule (initState sampleNames) \<noteq> None
   \<and> returned (the (run sampleSearch sampleSchedule (initState sampleNames))) \<noteq> None
   \<and> dom (the (returned (the (run sampleSearch sampleSchedule (initState sampleNames)))))
       = set sampleNames
   \<and> procs (the (run sampleSearch sampleSchedule (initState sampleNames))) ''Rice'' = Finished
   \<and> length sampleSchedule = 9 * length sampleNames + 1"
proof -
  define s1 where "s1 = the (run sampleSearch midSchedule (initState sampleNames))"
  define s2 where "s2 = the (fire sampleSearch (Store ''Tofu'') s1)"
  define sF where "sF = the (run sampleSearch sampleSchedule (initState sampleNames))"
  have d: "distinct sampleNames" by code_simp
  have r1n: "run sampleSearch midSchedule (initState sampleNames) \<noteq> None" by code_simp
  then have r1: "run sampleSearch midSchedule (initState sampleNames) = Some s1"
    by (simp add: s1_def)
  have f2n: "fire sampleSearch (Store ''Tofu'')
      (the (run sampleSearch midSchedule (initState sampleNames))) \<noteq> None" by code_simp
  then have f2: "fire sampleSearch (Store ''Tofu'') s1 = Some s2" by (simp add: s1_def s2_def)
  have "foodResults (the (run sampleSearch midSchedule (initState sampleNames))) ''Tofu'' = None"
    by code_simp
  moreover have "foodResults (the (fire sampleSearch (Store ''Tofu'')
      (the (run sampleSearch midSchedule (initState sampleNames))))) ''Tofu'' = Some None"
    by code_simp
  ultimately have ne: "foodResults s2 \<noteq> foodResults s1"
    unfolding s1_def s2_def by (metis option.distinct(1))
  have sem2: "sem (the (run sampleSearch midSchedule (initState sampleNames))) = 2" by code_simp
  have rFn: "run sampleSearch sampleSchedule (initState sampleNames) \<noteq> None" by code_simp
  then have rF: "run sampleSearch sampleSchedule (initState sampleNames) = Some sF"
    by (simp add: sF_def)
  have retn: "returned (the (run sampleSearch sampleSchedule (initState sampleNames))) \<noteq> None"
    by code_simp
  then obtain m where m: "returned sF = Some m" by (auto simp add: sF_def)
  have len: "length sampleSchedule = 9 * length sampleNames + 1" by code_simp
  from resolver_bounded_exclusive_joined [OF d r1] f2 ne have held: "mutexHeld s1" by blast
  from resolver_bounded_exclusive_joined [OF d rF] m have fin: "\<forall>n \<in> set sampleNames. procs sF n = Finished"
    and dm: "dom m = set sampleNames" by blast+
  have "''Rice'' \<in> set sampleNames" by code_simp
  with fin have rice: "procs sF ''Rice'' = Finished" by blast
  show ?thesis
    using d r1n f2n held sem2 rFn retn dm m rice len
    by (simp add: s1_def sF_def)
qed

theorem resolver_one_entry_one_lookup_witness:
  "distinct sampleNames
   \<and> set sampleNames = dom (collectPlan Map.empty sampleMeals)
   \<and> run sampleSearch sampleSchedule (initState sampleNames) \<noteq> None
   \<and> returned (the (run sampleSearch sampleSchedule (initState sampleNames))) \<noteq> None
   \<and> dom (the (returned (the (run sampleSearch sampleSchedule (initState sampleNames)))))
       = set (map Name (concat sampleMeals))
   \<and> the (returned (the (run sampleSearch sampleSchedule (initState sampleNames)))) ''Rice''
       = Some (Some riceFood)
   \<and> the (returned (the (run sampleSearch sampleSchedule (initState sampleNames)))) ''Tofu''
       = Some None
   \<and> calls (the (run sampleSearch sampleSchedule (initState sampleNames))) = [''Tofu'', ''Rice'']
   \<and> map Name (concat sampleMeals) = [''Rice'', ''Tofu'', ''Rice'']"
proof -
  define sF where "sF = the (run sampleSearch sampleSchedule (initState sampleNames))"
  have d: "distinct sampleNames" by code_simp
  have nm: "map Name (concat sampleMeals) = [''Rice'', ''Tofu'', ''Rice'']" by code_simp
  have sn: "sampleNames = [''Tofu'', ''Rice'']" by code_simp
  have k: "set sampleNames = dom (collectPlan Map.empty sampleMeals)"
    unfolding dom_collectPlan nm sn by auto
  have rFn: "run sampleSearch sampleSchedule (initState sampleNames) \<noteq> None" by code_simp
  then have rF: "run sampleSearch sampleSchedule (initState sampleNames) = Some sF"
    by (simp add: sF_def)
  have retn: "returned (the (run sampleSearch sampleSchedule (initState sampleNames))) \<noteq> None"
    by code_simp
  then obtain m where m: "returned sF = Some m" by (auto simp add: sF_def)
  have c: "calls (the (run sampleSearch sampleSchedule (initState sampleNames))) = [''Tofu'', ''Rice'']"
    by code_simp
  have v1: "the (returned (the (run sampleSearch sampleSchedule (initState sampleNames)))) ''Rice''
       = Some (Some riceFood)" by code_simp
  have v2: "the (returned (the (run sampleSearch sampleSchedule (initState sampleNames)))) ''Tofu''
       = Some None" by code_simp
  from resolver_one_entry_one_lookup [OF d k, of sampleSearch] rF m
  have "dom m = set (map Name (concat sampleMeals))" by blast
  then show ?thesis
    using d k rFn retn m c v1 v2 nm by (simp add: sF_def)
qed

end
